theory Spec2Isabelle
  imports Complex_Main "HOL-Library.AList" "HOL-Library.Sublist"
begin

section \<open>Data model\<close>

text \<open>
  The two scripts (the closed-end comparison V1.3, called variant 1, and the open-end
  comparison V1.2, called variant 2) read one folder of workbooks at a time, build a
  date-indexed table of unit NAVs with one column per product, resample it to a daily
  calendar and write the tables to a report.

  A Python \<open>str\<close> is a list of Unicode code points. A pandas timestamp is modelled at day
  granularity, as a day number: the NAV dates of the workbooks are calendar dates. A
  float64 is either a number (modelled as an exact rational: rounding is not modelled,
  and zero carries no sign), an infinity, or NaN, which pandas reads as null.

  The pandas and NumPy operations that the scripts call are modelled after the
  documented behaviour of the libraries, each under its own name.
\<close>

type_synonym ustr = "nat list"
type_synonym date = int

datatype fl = Num rat | PInf | NInf | NaN

text \<open>IEEE arithmetic on these values, exact on numbers.\<close>

fun fl_neg :: "fl \<Rightarrow> fl" where
  "fl_neg (Num a) = Num (- a)"
| "fl_neg PInf = NInf"
| "fl_neg NInf = PInf"
| "fl_neg NaN = NaN"

fun fl_add :: "fl \<Rightarrow> fl \<Rightarrow> fl" where
  "fl_add (Num a) (Num b) = Num (a + b)"
| "fl_add NaN y = NaN"
| "fl_add x NaN = NaN"
| "fl_add PInf NInf = NaN"
| "fl_add NInf PInf = NaN"
| "fl_add PInf y = PInf"
| "fl_add NInf y = NInf"
| "fl_add x PInf = PInf"
| "fl_add x NInf = NInf"

definition fl_sub :: "fl \<Rightarrow> fl \<Rightarrow> fl" where
  "fl_sub x y = fl_add x (fl_neg y)"

fun fl_sgn :: "fl \<Rightarrow> int" where
  "fl_sgn (Num a) = (if a < 0 then - 1 else 1)"
| "fl_sgn PInf = 1"
| "fl_sgn NInf = - 1"
| "fl_sgn NaN = 1"

definition fl_inf :: "int \<Rightarrow> fl" where
  "fl_inf s = (if s < 0 then NInf else PInf)"

fun fl_mul :: "fl \<Rightarrow> fl \<Rightarrow> fl" where
  "fl_mul (Num a) (Num b) = Num (a * b)"
| "fl_mul NaN y = NaN"
| "fl_mul x NaN = NaN"
| "fl_mul x y = (if x = Num 0 \<or> y = Num 0 then NaN else fl_inf (fl_sgn x * fl_sgn y))"

fun fl_div :: "fl \<Rightarrow> fl \<Rightarrow> fl" where
  "fl_div (Num a) (Num b) =
     (if b = 0 then (if a = 0 then NaN else fl_inf (fl_sgn (Num a))) else Num (a / b))"
| "fl_div NaN y = NaN"
| "fl_div x NaN = NaN"
| "fl_div (Num a) y = Num 0"
| "fl_div x (Num b) = fl_inf (fl_sgn x * fl_sgn (Num b))"
| "fl_div x y = NaN"

text \<open>
  A cell of a worksheet column that the scripts coerce: empty, not coercible to the
  wanted type, or coercible to a value of it.
\<close>

datatype 'a xl = Blank | Junk | Good 'a

type_synonym series = "(date \<times> fl) list"

text \<open>
  What the scripts find in one workbook. \<open>HistRows\<close> carries the rows of the date and
  unit-NAV columns of the historical-NAV sheet; \<open>HistRaises\<close> and \<open>LatestRaises\<close> stand
  for an exception raised while that sheet is read; \<open>Unreadable\<close> for one raised when
  the workbook is opened. A registration-code cell is null (\<open>None\<close>) or is given by the
  string that \<open>astype(str)\<close> makes of it.
\<close>

datatype hist = NoHistSheet | NoDateNavCols | HistRows "(date xl \<times> fl xl) list" | HistRaises

datatype latest = NoLatestSheet | NoCodeCol | CodeCells "ustr option list" | LatestRaises

datatype workbook = Unreadable | Workbook hist latest

text \<open>\<open>prod_name\<close> is the product name the script extracts from the file name.\<close>

record xfile =
  file_name :: ustr
  prod_name :: ustr
  book :: workbook

datatype msg =
    ReadFailed ustr
  | HistColsMissing ustr
  | HistSheetMissing ustr
  | CodeColMissing ustr
  | LatestSheetMissing ustr
  | FolderSkipped ustr
  | ReportWritten ustr

section \<open>Extracting the series of one workbook\<close>

text \<open>\<open>df[[dc, nc]].dropna()\<close>: rows with an empty cell go.\<close>

definition dropna_blank :: "(date xl \<times> fl xl) list \<Rightarrow> (date xl \<times> fl xl) list" where
  "dropna_blank rows = filter (\<lambda>(d, v). d \<noteq> Blank \<and> v \<noteq> Blank) rows"

text \<open>\<open>pd.to_datetime\<close> and \<open>pd.to_numeric\<close> with \<open>errors='coerce'\<close>.\<close>

fun to_datetime :: "date xl \<Rightarrow> date option" where
  "to_datetime (Good d) = Some d"
| "to_datetime Junk = None"
| "to_datetime Blank = None"

fun to_numeric :: "fl xl \<Rightarrow> fl" where
  "to_numeric (Good v) = v"
| "to_numeric Junk = NaN"
| "to_numeric Blank = NaN"

text \<open>\<open>dropna(subset=['date', prod])\<close> after the coercion.\<close>

definition dropna_subset :: "(date option \<times> fl) list \<Rightarrow> series" where
  "dropna_subset rows =
     map (\<lambda>(d, v). (the d, v)) (filter (\<lambda>(d, v). d \<noteq> None \<and> v \<noteq> NaN) rows)"

text \<open>
  \<open>groupby('date').last()\<close>: one row per date, the dates in ascending order, each with
  the value of the last row of its group.
\<close>

definition groupby_last :: "series \<Rightarrow> series" where
  "groupby_last rows =
     map (\<lambda>k. (k, last (map snd (filter (\<lambda>r. fst r = k) rows)))) (sort (remdups (map fst rows)))"

definition hist_series :: "(date xl \<times> fl xl) list \<Rightarrow> series" where
  "hist_series rows =
     groupby_last (dropna_subset (map (\<lambda>(d, v). (to_datetime d, to_numeric v)) (dropna_blank rows)))"

section \<open>Scanning a folder\<close>

text \<open>
  The state of the loop over the files of a folder: the dictionary \<open>product_nav\<close> (an
  association list, in insertion order: assigning to a key that is present keeps its
  place), the set \<open>codes_in_folder\<close> and what has been printed.
\<close>

record scan =
  product_nav :: "(ustr \<times> series) list"
  codes_in_folder :: "ustr set"
  printed :: "msg list"

definition scan0 :: scan where
  "scan0 = \<lparr>product_nav = [], codes_in_folder = {}, printed = []\<rparr>"

definition say :: "msg \<Rightarrow> scan \<Rightarrow> scan" where
  "say m st = st\<lparr>printed := printed st @ [m]\<rparr>"

text \<open>
  The body of the loop. \<open>warn\<close> tells the variants apart: variant 1 prints a warning
  for a missing sheet or column, variant 2 does not. \<open>q\<close> says whether the lookup table
  was loaded.
\<close>

definition read_hist :: "bool \<Rightarrow> xfile \<Rightarrow> hist \<Rightarrow> scan \<Rightarrow> scan" where
  "read_hist warn f h st =
     (case h of
        HistRows rows \<Rightarrow>
          st\<lparr>product_nav := AList.update (prod_name f) (hist_series rows) (product_nav st)\<rparr>
      | NoDateNavCols \<Rightarrow> if warn then say (HistColsMissing (file_name f)) st else st
      | NoHistSheet \<Rightarrow> if warn then say (HistSheetMissing (file_name f)) st else st
      | HistRaises \<Rightarrow> st)"

definition read_latest :: "bool \<Rightarrow> xfile \<Rightarrow> latest \<Rightarrow> scan \<Rightarrow> scan" where
  "read_latest warn f l st =
     (case l of
        CodeCells cs \<Rightarrow>
          st\<lparr>codes_in_folder := codes_in_folder st \<union> set (List.map_filter (\<lambda>c. c) cs)\<rparr>
      | NoCodeCol \<Rightarrow> if warn then say (CodeColMissing (file_name f)) st else st
      | NoLatestSheet \<Rightarrow> if warn then say (LatestSheetMissing (file_name f)) st else st
      | LatestRaises \<Rightarrow> say (ReadFailed (file_name f)) st)"

text \<open>
  The history block gives the two columns of its frame the labels \<open>date\<close> and the product
  name (\<open>tmp.columns = ['date', prod_name]\<close>). For a product that is itself named
  \<open>date\<close> both columns get that label, \<open>tmp['date']\<close> is a frame of two columns and
  \<open>pd.to_datetime\<close> raises on it: the block then raises like an unparseable sheet, and
  the workbook contributes neither a series nor codes.
\<close>

definition date_label :: ustr where
  "date_label = [100, 97, 116, 101]"

definition hist_raises :: "xfile \<Rightarrow> hist \<Rightarrow> bool" where
  "hist_raises f h =
     (case h of
        HistRaises \<Rightarrow> True
      | HistRows rows \<Rightarrow> prod_name f = date_label
      | NoDateNavCols \<Rightarrow> False
      | NoHistSheet \<Rightarrow> False)"

definition read_file :: "bool \<Rightarrow> bool \<Rightarrow> scan \<Rightarrow> xfile \<Rightarrow> scan" where
  "read_file warn q st f =
     (case book f of
        Unreadable \<Rightarrow> say (ReadFailed (file_name f)) st
      | Workbook h l \<Rightarrow>
          if hist_raises f h then say (ReadFailed (file_name f)) st
          else let st1 = read_hist warn f h st
               in if q then read_latest warn f l st1 else st1)"

definition scan_folder :: "bool \<Rightarrow> bool \<Rightarrow> xfile list \<Rightarrow> scan" where
  "scan_folder warn q files = foldl (read_file warn q) scan0 files"

section \<open>Tables\<close>

text \<open>
  A data frame with a date index: the index and, per column label, the cells of the
  column in index order.
\<close>

record frame =
  index :: "date list"
  columns :: "(ustr \<times> fl list) list"

datatype error = ValueError | KeyError

definition cell_or_nan :: "(date \<times> fl) list \<Rightarrow> date \<Rightarrow> fl" where
  "cell_or_nan s d = (case map_of s d of None \<Rightarrow> NaN | Some v \<Rightarrow> v)"

text \<open>\<open>df.at[d, c]\<close>; \<open>None\<close> is the KeyError.\<close>

definition df_at :: "frame \<Rightarrow> date \<Rightarrow> ustr \<Rightarrow> fl option" where
  "df_at df d c =
     (case map_of (columns df) c of None \<Rightarrow> None | Some vs \<Rightarrow> map_of (zip (index df) vs) d)"

text \<open>\<open>df.reindex(idx)\<close>, for a frame whose index has no duplicates.\<close>

definition reindex :: "frame \<Rightarrow> date list \<Rightarrow> frame" where
  "reindex df idx =
     \<lparr>index = idx,
      columns = map (\<lambda>(c, vs). (c, map (cell_or_nan (zip (index df) vs)) idx)) (columns df)\<rparr>"

text \<open>
  \<open>pd.concat(product_nav.values(), axis=1)\<close>: the outer join of the series on their
  dates. The order in which the union of the dates comes out does not matter, for
  \<open>sort_index\<close> follows.
\<close>

definition concat_axis1 :: "(ustr \<times> series) list \<Rightarrow> frame" where
  "concat_axis1 pn =
     (let idx = remdups (concat (map (\<lambda>(p, s). map fst s) pn))
      in \<lparr>index = idx, columns = map (\<lambda>(p, s). (p, map (cell_or_nan s) idx)) pn\<rparr>)"

definition sort_index :: "frame \<Rightarrow> frame" where
  "sort_index df = reindex df (sort (index df))"

definition merged_nav :: "(ustr \<times> series) list \<Rightarrow> frame" where
  "merged_nav pn = sort_index (concat_axis1 pn)"

section \<open>Calendar resampling\<close>

text \<open>\<open>index.min()\<close> and \<open>index.max()\<close>; \<open>None\<close> is NaT, the answer for an empty index.\<close>

definition index_min :: "date list \<Rightarrow> date option" where
  "index_min idx = (if idx = [] then None else Some (Min (set idx)))"

definition index_max :: "date list \<Rightarrow> date option" where
  "index_max idx = (if idx = [] then None else Some (Max (set idx)))"

text \<open>\<open>pd.date_range(start, end, freq='D')\<close> raises ValueError when an end is NaT.\<close>

definition date_range :: "date option \<Rightarrow> date option \<Rightarrow> error + date list" where
  "date_range a b =
     (case a of None \<Rightarrow> Inl ValueError
      | Some lo \<Rightarrow> (case b of None \<Rightarrow> Inl ValueError | Some hi \<Rightarrow> Inr [lo..hi]))"

definition full_idx :: "frame \<Rightarrow> error + date list" where
  "full_idx df = date_range (index_min (index df)) (index_max (index df))"

text \<open>
  \<open>interpolate('linear')\<close> works on each column by position, the rows taken as equally
  spaced. Its defaults are \<open>limit_direction='forward'\<close> with no limit and no
  \<open>limit_area\<close>: the value at every null position comes from \<open>np.interp\<close> over the
  non-null positions, and only the nulls before the first non-null value are put back.
  \<open>np.interp\<close> holds the first value to the left of its points and the last value to the
  right of them; between two points it computes \<open>slope * (x - x0) + y0\<close> and, when that is
  NaN, tries from the right end.
\<close>

definition lin_interp :: "nat \<Rightarrow> nat \<Rightarrow> fl \<Rightarrow> nat \<Rightarrow> fl \<Rightarrow> fl" where
  "lin_interp x x0 y0 x1 y1 =
     (let slope = fl_div (fl_sub y1 y0) (Num (of_nat x1 - of_nat x0));
          r = fl_add (fl_mul slope (Num (of_nat x - of_nat x0))) y0
      in if r \<noteq> NaN then r
         else let r' = fl_add (fl_mul slope (Num (of_nat x - of_nat x1))) y1
              in if r' = NaN \<and> y0 = y1 then y0 else r')"

fun np_interp :: "nat \<Rightarrow> (nat \<times> fl) list \<Rightarrow> fl" where
  "np_interp x [] = NaN"
| "np_interp x [(x0, y0)] = y0"
| "np_interp x ((x0, y0) # (x1, y1) # ps) =
     (if x \<le> x0 then y0
      else if x < x1 then lin_interp x x0 y0 x1 y1
      else np_interp x ((x1, y1) # ps))"

definition valid_points :: "fl list \<Rightarrow> (nat \<times> fl) list" where
  "valid_points ys = filter (\<lambda>(i, y). y \<noteq> NaN) (zip [0..<length ys] ys)"

definition interpolate_1d :: "fl list \<Rightarrow> fl list" where
  "interpolate_1d ys =
     (let pts = valid_points ys
      in if pts = [] \<or> length pts = length ys then ys
         else map (\<lambda>(i, y). if y \<noteq> NaN then y
                             else if i < fst (hd pts) then NaN
                             else np_interp i pts) (zip [0..<length ys] ys))"

definition interpolate :: "frame \<Rightarrow> frame" where
  "interpolate df = df\<lparr>columns := map (\<lambda>(c, vs). (c, interpolate_1d vs)) (columns df)\<rparr>"

text \<open>
  The chart table of variant 1 (\<open>plot_nav\<close>) and the raw chart table of variant 2
  (\<open>df_plot_raw\<close>) are both \<open>reindex(full_idx).interpolate('linear')\<close> of the merged table.
\<close>

definition plot_nav :: "frame \<Rightarrow> error + frame" where
  "plot_nav df =
     (case full_idx df of Inl e \<Rightarrow> Inl e | Inr idx \<Rightarrow> Inr (interpolate (reindex df idx)))"

section \<open>Normalisation to the baseline date (variant 2)\<close>

text \<open>The marker of the reference group and the suffix of a normalised column.\<close>

definition fab :: ustr where
  "fab = [27861, 24052]"

definition unified_suffix :: ustr where
  "unified_suffix = [65288, 32479, 19968, 22522, 20934, 65289]"

text \<open>Python's \<open>pat in s\<close> on strings.\<close>

fun contains :: "ustr \<Rightarrow> ustr \<Rightarrow> bool" where
  "contains pat [] = (pat = [])"
| "contains pat (x # xs) = (prefix pat (x # xs) \<or> contains pat xs)"

definition fab_cols :: "frame \<Rightarrow> ustr list" where
  "fab_cols df = filter (contains fab) (map fst (columns df))"

definition notna_at :: "frame \<Rightarrow> date \<Rightarrow> ustr \<Rightarrow> bool" where
  "notna_at df d c = (case df_at df d c of None \<Rightarrow> False | Some v \<Rightarrow> v \<noteq> NaN)"

text \<open>\<open>df_raw[fab_cols].dropna(how='all').index.min()\<close>.\<close>

definition start_date :: "frame \<Rightarrow> date option" where
  "start_date df =
     index_min (filter (\<lambda>d. list_ex (notna_at df d) (fab_cols df)) (index df))"

text \<open>
  The test of the loop, \<open>start in df_raw.index and pd.notna(df_raw.at[start, col])\<close>:
  the value at the baseline date when the test passes.
\<close>

definition baseline :: "frame \<Rightarrow> date option \<Rightarrow> ustr \<Rightarrow> fl option" where
  "baseline df start col =
     (case start of None \<Rightarrow> None
      | Some s \<Rightarrow>
          if s \<in> set (index df)
          then (case df_at df s col of None \<Rightarrow> None
                | Some b \<Rightarrow> if b \<noteq> NaN then Some b else None)
          else None)"

text \<open>\<open>df[c] = vs\<close>: a present label keeps its place, a new one goes last.\<close>

definition setitem :: "frame \<Rightarrow> ustr \<Rightarrow> fl list \<Rightarrow> frame" where
  "setitem df c vs = df\<lparr>columns := AList.update c vs (columns df)\<rparr>"

text \<open>
  The body of the loop over \<open>df_raw.columns\<close> and the loop. The labels of the merged table
  are distinct, so \<open>df_raw[col]\<close> is the column that comes with the label.
\<close>

definition norm_step :: "frame \<Rightarrow> frame \<Rightarrow> ustr \<times> fl list \<Rightarrow> frame" where
  "norm_step df_raw dfn cv =
     (if fst cv \<in> set (fab_cols df_raw) then dfn
      else case baseline df_raw (start_date df_raw) (fst cv) of
             None \<Rightarrow> dfn
           | Some b \<Rightarrow> setitem dfn (fst cv @ unified_suffix) (map (\<lambda>v. fl_div v b) (snd cv)))"

definition normalize :: "frame \<Rightarrow> frame" where
  "normalize df_raw = foldl (norm_step df_raw) df_raw (columns df_raw)"

text \<open>The new column order, and \<open>df[labels]\<close>.\<close>

definition order_cols :: "frame \<Rightarrow> frame \<Rightarrow> ustr list" where
  "order_cols df_raw dfn =
     concat (map (\<lambda>c. if c @ unified_suffix \<in> set (map fst (columns dfn))
                       then [c, c @ unified_suffix] else [c])
                 (map fst (columns df_raw)))"

definition select_cols :: "frame \<Rightarrow> ustr list \<Rightarrow> frame" where
  "select_cols df labels =
     df\<lparr>columns := concat (map (\<lambda>l. filter (\<lambda>cv. fst cv = l) (columns df)) labels)\<rparr>"

definition df_norm :: "frame \<Rightarrow> frame" where
  "df_norm df_raw = (let dfn = normalize df_raw in select_cols dfn (order_cols df_raw dfn))"

text \<open>\<open>df[df.index >= start]\<close>; a comparison with NaT is false.\<close>

definition ge_start :: "date option \<Rightarrow> date \<Rightarrow> bool" where
  "ge_start start d = (case start of None \<Rightarrow> False | Some s \<Rightarrow> s \<le> d)"

definition filter_rows :: "(date \<Rightarrow> bool) \<Rightarrow> frame \<Rightarrow> frame" where
  "filter_rows P df =
     \<lparr>index = filter P (index df),
      columns = map (\<lambda>(c, vs). (c, map snd (filter (\<lambda>dv. P (fst dv)) (zip (index df) vs))))
                    (columns df)\<rparr>"

definition df_plot_norm :: "frame \<Rightarrow> error + frame" where
  "df_plot_norm df_raw =
     (case full_idx df_raw of
        Inl e \<Rightarrow> Inl e
      | Inr idx \<Rightarrow>
          Inr (filter_rows (ge_start (start_date df_raw))
                 (interpolate (reindex (df_norm df_raw) idx))))"

section \<open>The product-information sheet\<close>

text \<open>
  The lookup table as \<open>read_excel\<close> gives it: the column labels and the rows, each row
  holding one cell per label. A cell is null or is given by its string form. \<open>astype(str)\<close>
  turns a null cell into the string \<open>nan\<close>.
\<close>

record lookup =
  lk_columns :: "ustr list"
  lk_rows :: "ustr option list list"

definition reg_code :: ustr where
  "reg_code = [30331, 35760, 32534, 30721]"

definition astype_str :: "ustr option \<Rightarrow> ustr" where
  "astype_str c = (case c of None \<Rightarrow> [110, 97, 110] | Some s \<Rightarrow> s)"

fun pos_of :: "ustr \<Rightarrow> ustr list \<Rightarrow> nat option" where
  "pos_of l [] = None"
| "pos_of l (c # cs) = (if c = l then Some 0 else map_option Suc (pos_of l cs))"

text \<open>
  \<open>df_query[df_query[reg_code].astype(str).isin(codes_in_folder)]\<close>; a table without
  the registration-code column raises KeyError.
\<close>

definition isin_codes :: "lookup \<Rightarrow> ustr set \<Rightarrow> error + lookup" where
  "isin_codes q codes =
     (case pos_of reg_code (lk_columns q) of
        None \<Rightarrow> Inl KeyError
      | Some i \<Rightarrow> Inr (q\<lparr>lk_rows := filter (\<lambda>r. astype_str (r ! i) \<in> codes) (lk_rows q)\<rparr>))"

definition desired_info_cols :: "ustr list" where
  "desired_info_cols =
     [[29702, 36130, 20135, 21697, 21517, 31216],
      [26368, 26089, 23454, 38469, 25104, 31435, 26085, 26399],
      [26368, 26089, 23454, 38469, 32467, 26463, 26085, 26399],
      [25237, 36164, 21608, 26399, 65288, 22825, 65289],
      [19994, 32489, 27604, 36739, 22522, 20934, 65288, 37, 65289],
      [26368, 26032, 38144, 21806, 36153, 40, 37, 41],
      [26368, 26032, 22266, 23450, 31649, 29702, 36153, 40, 37, 41],
      [25240, 21512, 20154, 27665, 24065, 35745, 31639, 26085, 26399, 23384, 32493, 35268, 27169],
      [36817, 49, 20010, 26376, 24180, 21270, 25910, 30410, 29575, 40, 37, 41],
      [36817, 51, 20010, 26376, 24180, 21270, 25910, 30410, 29575, 40, 37, 41],
      [25104, 31435, 20197, 26469, 24180, 21270, 25910, 30410, 29575, 40, 37, 41],
      [36817, 49, 20010, 26376, 26368, 22823, 22238, 25764, 40, 37, 41],
      [36817, 51, 20010, 26376, 26368, 22823, 22238, 25764, 40, 37, 41],
      [25104, 31435, 20197, 26469, 26368, 22823, 22238, 25764, 40, 37, 41]]"

text \<open>\<open>df[labels]\<close> on the lookup table; a label that is not a column raises KeyError.\<close>

definition select_info :: "lookup \<Rightarrow> ustr list \<Rightarrow> error + lookup" where
  "select_info q labels =
     (if list_all (\<lambda>l. l \<in> set (lk_columns q)) labels
      then Inr \<lparr>lk_columns = labels,
                lk_rows = map (\<lambda>r. map (\<lambda>l. r ! the (pos_of l (lk_columns q))) labels) (lk_rows q)\<rparr>
      else Inl KeyError)"

definition reorder_info :: "lookup \<Rightarrow> error + lookup" where
  "reorder_info df_info =
     (let cols1 = filter (\<lambda>c. c \<in> set (lk_columns df_info)) desired_info_cols;
          cols2 = filter (\<lambda>c. c \<notin> set cols1) (lk_columns df_info)
      in select_info df_info (cols1 @ cols2))"

text \<open>
  The sheet is written only \<open>if df_query is not None and codes_in_folder\<close>. Variant 1
  writes the filtered rows, variant 2 reorders the columns first.
\<close>

definition df_info_v1 :: "lookup option \<Rightarrow> ustr set \<Rightarrow> error + lookup option" where
  "df_info_v1 df_query codes =
     (case df_query of
        None \<Rightarrow> Inr None
      | Some q \<Rightarrow>
          if codes = {} then Inr None
          else (case isin_codes q codes of Inl e \<Rightarrow> Inl e | Inr t \<Rightarrow> Inr (Some t)))"

definition df_info_v2 :: "lookup option \<Rightarrow> ustr set \<Rightarrow> error + lookup option" where
  "df_info_v2 df_query codes =
     (case df_query of
        None \<Rightarrow> Inr None
      | Some q \<Rightarrow>
          if codes = {} then Inr None
          else (case isin_codes q codes of
                  Inl e \<Rightarrow> Inl e
                | Inr t \<Rightarrow> (case reorder_info t of Inl e \<Rightarrow> Inl e | Inr t' \<Rightarrow> Inr (Some t'))))"

section \<open>Processing the folders\<close>

text \<open>
  The sheets of a report; the charts and the formatting of the dates are left out. A
  folder either is skipped (\<open>Inr None\<close>), gets a report, or raises an exception that
  nothing catches, which ends the run. What an aborted run leaves on disk is not
  modelled.
\<close>

record report_v1 =
  nav_sheet :: frame
  plot_sheet :: frame
  info_sheet :: "lookup option"

record report_v2 =
  raw_sheet :: frame
  unified_sheet :: frame
  raw_plot_sheet :: frame
  unified_plot_sheet :: frame
  info_sheet2 :: "lookup option"

definition process_folder_v1 ::
  "lookup option \<Rightarrow> ustr \<times> xfile list \<Rightarrow> msg list \<times> (error + report_v1 option)" where
  "process_folder_v1 df_query b =
     (let sc = scan_folder True (df_query \<noteq> None) (snd b)
      in if product_nav sc \<noteq> [] then
           (let merged = merged_nav (product_nav sc)
            in case plot_nav merged of
                 Inl e \<Rightarrow> (printed sc, Inl e)
               | Inr plot \<Rightarrow>
                   (case df_info_v1 df_query (codes_in_folder sc) of
                      Inl e \<Rightarrow> (printed sc, Inl e)
                    | Inr info \<Rightarrow>
                        (printed sc @ [ReportWritten (fst b)],
                         Inr (Some \<lparr>nav_sheet = merged, plot_sheet = plot, info_sheet = info\<rparr>))))
         else (printed sc @ [FolderSkipped (fst b)], Inr None))"

definition process_folder_v2 ::
  "lookup option \<Rightarrow> ustr \<times> xfile list \<Rightarrow> msg list \<times> (error + report_v2 option)" where
  "process_folder_v2 df_query b =
     (let sc = scan_folder False (df_query \<noteq> None) (snd b)
      in if product_nav sc = [] then (printed sc @ [FolderSkipped (fst b)], Inr None)
         else
           (let df_raw = merged_nav (product_nav sc)
            in case plot_nav df_raw of
                 Inl e \<Rightarrow> (printed sc, Inl e)
               | Inr plot_raw \<Rightarrow>
                   (case df_plot_norm df_raw of
                      Inl e \<Rightarrow> (printed sc, Inl e)
                    | Inr plot_norm \<Rightarrow>
                        (case df_info_v2 df_query (codes_in_folder sc) of
                           Inl e \<Rightarrow> (printed sc, Inl e)
                         | Inr info \<Rightarrow>
                             (printed sc @ [ReportWritten (fst b)],
                              Inr (Some \<lparr>raw_sheet = df_raw, unified_sheet = df_norm df_raw,
                                         raw_plot_sheet = plot_raw, unified_plot_sheet = plot_norm,
                                         info_sheet2 = info\<rparr>))))))"

text \<open>
  The loop over the folders: what was printed, the reports written (with the folder
  each belongs to) and the exception that ended the run, if any.
\<close>

fun run_folders ::
  "(ustr \<times> xfile list \<Rightarrow> msg list \<times> (error + 'r option)) \<Rightarrow> (ustr \<times> xfile list) list
     \<Rightarrow> msg list \<times> (ustr \<times> 'r) list \<times> error option" where
  "run_folders process [] = ([], [], None)"
| "run_folders process (b # bs) =
     (case process b of
        (ms, Inl e) \<Rightarrow> (ms, [], Some e)
      | (ms, Inr r) \<Rightarrow>
          (case run_folders process bs of
             (ms', outs, err) \<Rightarrow>
               (ms @ ms', (case r of None \<Rightarrow> [] | Some rep \<Rightarrow> [(fst b, rep)]) @ outs, err)))"

definition run_v1 ::
  "lookup option \<Rightarrow> (ustr \<times> xfile list) list
     \<Rightarrow> msg list \<times> (ustr \<times> report_v1) list \<times> error option" where
  "run_v1 df_query folders = run_folders (process_folder_v1 df_query) folders"

definition run_v2 ::
  "lookup option \<Rightarrow> (ustr \<times> xfile list) list
     \<Rightarrow> msg list \<times> (ustr \<times> report_v2) list \<times> error option" where
  "run_v2 df_query folders = run_folders (process_folder_v2 df_query) folders"

section \<open>Notions used to state the properties\<close>

text \<open>The series a workbook contributes to \<open>product_nav\<close>, if it contributes one.\<close>

definition series_of :: "xfile \<Rightarrow> series option" where
  "series_of f =
     (case book f of
        Unreadable \<Rightarrow> None
      | Workbook h l \<Rightarrow>
          (case h of
             HistRows rows \<Rightarrow> if prod_name f = date_label then None else Some (hist_series rows)
           | _ \<Rightarrow> None))"

text \<open>
  A folder used as the concrete input of the examples: the reference product
  (its name begins with the marker of the reference group) has a value on each of the
  days 1 to 5, a competitor has values on the days 1 to 3 only.
\<close>

definition demo_files :: "xfile list" where
  "demo_files =
     [\<lparr>file_name = [49], prod_name = [27861, 24052, 65],
       book = Workbook (HistRows [(Good 1, Good (Num 1)), (Good 2, Good (Num (101 / 100))),
                                  (Good 3, Good (Num (51 / 50))), (Good 4, Good (Num (103 / 100))),
                                  (Good 5, Good (Num (21 / 20)))]) NoLatestSheet\<rparr>,
      \<lparr>file_name = [50], prod_name = [88],
       book = Workbook (HistRows [(Good 1, Good (Num 100)), (Good 2, Good (Num 101)),
                                  (Good 3, Good (Num 102))]) NoLatestSheet\<rparr>]"

text \<open>
  The column that the normalisation loop assigns for the raw column \<open>c\<close>, if it assigns
  one.
\<close>

definition norm_values :: "frame \<Rightarrow> ustr \<Rightarrow> fl list option" where
  "norm_values df_raw c =
     (if c \<in> set (fab_cols df_raw) then None
      else case baseline df_raw (start_date df_raw) c of
             None \<Rightarrow> None
           | Some b \<Rightarrow> map_option (map (\<lambda>v. fl_div v b)) (map_of (columns df_raw) c))"

text \<open>
  Two more folders for the examples. In the first the reference product starts on day
  2, a day after the competitor, and has a gap. In the second the competitor is worth 0
  on the baseline date.
\<close>

definition late_start_files :: "xfile list" where
  "late_start_files =
     [\<lparr>file_name = [49], prod_name = [27861, 24052, 65],
       book = Workbook (HistRows [(Good 2, Good (Num 1)), (Good 5, Good (Num 4))]) NoLatestSheet\<rparr>,
      \<lparr>file_name = [50], prod_name = [88],
       book = Workbook (HistRows [(Good 1, Good (Num 50)), (Good 2, Good (Num 100)),
                                  (Good 3, Good (Num 102))]) NoLatestSheet\<rparr>]"

definition zero_base_files :: "xfile list" where
  "zero_base_files =
     [\<lparr>file_name = [49], prod_name = [27861, 24052, 65],
       book = Workbook (HistRows [(Good 1, Good (Num 1))]) NoLatestSheet\<rparr>,
      \<lparr>file_name = [50], prod_name = [88],
       book = Workbook (HistRows [(Good 1, Good (Num 0)), (Good 2, Good (Num 5))]) NoLatestSheet\<rparr>]"

text \<open>
  A folder in which two workbooks carry the same product name, with a workbook of
  another product between them, and a folder whose only workbook has the historical-NAV
  sheet with its two columns but no row.
\<close>

definition same_name_files :: "xfile list" where
  "same_name_files =
     [\<lparr>file_name = [49], prod_name = [88],
       book = Workbook (HistRows [(Good 1, Good (Num 7)), (Good 2, Good (Num 8))]) NoLatestSheet\<rparr>,
      \<lparr>file_name = [50], prod_name = [89],
       book = Workbook (HistRows [(Good 1, Good (Num 5))]) NoLatestSheet\<rparr>,
      \<lparr>file_name = [51], prod_name = [88],
       book = Workbook (HistRows [(Good 2, Good (Num 9))]) NoLatestSheet\<rparr>]"

definition header_only_files :: "xfile list" where
  "header_only_files =
     [\<lparr>file_name = [49], prod_name = [88], book = Workbook (HistRows []) NoLatestSheet\<rparr>]"

section \<open>Properties of the tables\<close>

subsection \<open>Reindexing and merging\<close>

lemma map_of_zip_map_if:
  "map_of (zip xs (map f xs)) d = (if d \<in> set xs then Some (f d) else None)"
  by (simp add: map_of_zip_map)

lemma index_reindex [simp]: "index (reindex df idx) = idx"
  by (simp add: reindex_def)

lemma names_reindex: "map fst (columns (reindex df idx)) = map fst (columns df)"
  by (simp add: reindex_def case_prod_beta comp_def)

lemma map_of_columns_reindex:
  "map_of (columns (reindex df idx)) c
     = map_option (\<lambda>vs. map (cell_or_nan (zip (index df) vs)) idx) (map_of (columns df) c)"
  by (simp add: reindex_def map_of_map)

lemma df_at_reindex:
  "df_at (reindex df idx) d c =
     (if d \<in> set idx \<and> c \<in> fst ` set (columns df)
      then Some (case df_at df d c of None \<Rightarrow> NaN | Some v \<Rightarrow> v) else None)"
proof (cases "map_of (columns df) c")
  case None
  then have "c \<notin> fst ` set (columns df)" by (simp add: map_of_eq_None_iff)
  then show ?thesis using None by (simp add: df_at_def map_of_columns_reindex)
next
  case (Some vs)
  then have "c \<in> fst ` set (columns df)" by (metis map_of_SomeD image_eqI fst_conv)
  then show ?thesis using Some
    by (simp add: df_at_def map_of_columns_reindex map_of_zip_map_if cell_or_nan_def)
qed

lemma index_concat_axis1:
  "set (index (concat_axis1 pn)) = (\<Union>(p, s) \<in> set pn. fst ` set s)"
  by (auto simp: concat_axis1_def Let_def)

lemma names_concat_axis1: "map fst (columns (concat_axis1 pn)) = map fst pn"
  by (simp add: concat_axis1_def Let_def case_prod_beta comp_def)

lemma df_at_concat_axis1:
  assumes "distinct (map fst pn)" "(p, s) \<in> set pn" "d \<in> set (index (concat_axis1 pn))"
  shows "df_at (concat_axis1 pn) d p = Some (cell_or_nan s d)"
proof -
  have "map_of pn p = Some s" using assms(1,2) by simp
  then have "map_of (columns (concat_axis1 pn)) p
      = Some (map (cell_or_nan s) (index (concat_axis1 pn)))"
    by (simp add: concat_axis1_def Let_def map_of_map)
  then show ?thesis using assms(3) by (simp add: df_at_def map_of_zip_map_if)
qed

lemma index_merged_nav:
  "index (merged_nav pn) = sort (remdups (concat (map (\<lambda>(p, s). map fst s) pn)))"
  by (simp add: merged_nav_def sort_index_def reindex_def concat_axis1_def Let_def)

lemma set_index_merged_nav:
  "set (index (merged_nav pn)) = (\<Union>(p, s) \<in> set pn. fst ` set s)"
  by (auto simp: index_merged_nav)

lemma names_merged_nav: "map fst (columns (merged_nav pn)) = map fst pn"
  by (simp add: merged_nav_def sort_index_def names_reindex names_concat_axis1)

lemma df_at_merged_nav:
  assumes "distinct (map fst pn)" "(p, s) \<in> set pn" "d \<in> set (index (merged_nav pn))"
  shows "df_at (merged_nav pn) d p = Some (cell_or_nan s d)"
proof -
  have d: "d \<in> set (index (concat_axis1 pn))"
    using assms(3) by (simp add: set_index_merged_nav index_concat_axis1)
  have "p \<in> fst ` set (columns (concat_axis1 pn))"
    using assms(2) names_concat_axis1[of pn] by (metis image_eqI fst_conv set_map)
  then show ?thesis
    using d df_at_concat_axis1[OF assms(1,2) d] assms(3)
    by (simp add: merged_nav_def sort_index_def df_at_reindex)
qed

subsection \<open>One series per workbook\<close>

lemma map_of_groupby_last:
  "map_of (groupby_last rows) d =
     (if d \<in> fst ` set rows then Some (last (map snd (filter (\<lambda>r. fst r = d) rows))) else None)"
  by (simp add: groupby_last_def map_of_map_restrict restrict_map_def)

lemma names_groupby_last: "map fst (groupby_last rows) = sort (remdups (map fst rows))"
  by (simp add: groupby_last_def comp_def)

lemma last_of_group:
  assumes "rows = pre @ (d, v) # post" "d \<notin> fst ` set post"
  shows "last (map snd (filter (\<lambda>r. fst r = d) rows)) = v"
proof -
  have "filter (\<lambda>r. fst r = d) post = []" using assms(2) by (auto simp: filter_empty_conv)
  then show ?thesis using assms(1) by simp
qed

lemma values_groupby_last:
  "(d, v) \<in> set (groupby_last rows) \<Longrightarrow> (d, v) \<in> set rows"
proof -
  assume "(d, v) \<in> set (groupby_last rows)"
  then have d: "d \<in> fst ` set rows" and v: "v = last (map snd (filter (\<lambda>r. fst r = d) rows))"
    by (auto simp: groupby_last_def)
  from d have ne: "filter (\<lambda>r. fst r = d) rows \<noteq> []" by (auto simp: filter_empty_conv)
  then have "last (filter (\<lambda>r. fst r = d) rows) \<in> set (filter (\<lambda>r. fst r = d) rows)"
    by (rule last_in_set)
  then have "last (filter (\<lambda>r. fst r = d) rows) \<in> set rows"
    and "fst (last (filter (\<lambda>r. fst r = d) rows)) = d" by simp_all
  then have "(d, snd (last (filter (\<lambda>r. fst r = d) rows))) \<in> set rows"
    by (metis prod.collapse)
  moreover have "v = snd (last (filter (\<lambda>r. fst r = d) rows))" using v ne by (simp add: last_map)
  ultimately show ?thesis by simp
qed

lemma dropna_subset_iff:
  "(d, v) \<in> set (dropna_subset rows) \<longleftrightarrow> (Some d, v) \<in> set rows \<and> v \<noteq> NaN"
  by (force simp: dropna_subset_def)

lemma dropna_subset_append:
  "dropna_subset (xs @ ys) = dropna_subset xs @ dropna_subset ys"
  by (simp add: dropna_subset_def)

lemma hist_series_not_nan: "(d, v) \<in> set (hist_series rows) \<Longrightarrow> v \<noteq> NaN"
  by (auto simp: hist_series_def dropna_subset_iff dest!: values_groupby_last)

subsection \<open>Interpolation of one column\<close>

lemma valid_points_iff:
  "(i, y) \<in> set (valid_points ys) \<longleftrightarrow> i < length ys \<and> ys ! i = y \<and> y \<noteq> NaN"
proof -
  have "(i, y) \<in> set (zip [0..<length ys] ys) \<longleftrightarrow> i < length ys \<and> ys ! i = y"
    by (auto simp: set_zip intro!: exI[of _ i])
  then show ?thesis by (auto simp: valid_points_def)
qed

lemma valid_points_mem:
  "p \<in> set (valid_points ys) \<Longrightarrow> fst p < length ys \<and> ys ! fst p \<noteq> NaN"
  using valid_points_iff[of "fst p" "snd p" ys] by simp

lemma sorted_valid_points: "sorted_wrt (<) (map fst (valid_points ys))"
proof -
  have "map fst (zip [0..<length ys] ys) = [0..<length ys]" by simp
  then have "sorted_wrt (<) (map fst (zip [0..<length ys] ys))" by simp
  then have "sorted_wrt (\<lambda>a b. fst a < fst b) (zip [0..<length ys] ys)"
    by (simp only: sorted_wrt_map)
  then have "sorted_wrt (\<lambda>a b. fst a < fst b) (valid_points ys)"
    unfolding valid_points_def by (rule sorted_wrt_filter)
  then show ?thesis by (simp only: sorted_wrt_map)
qed

lemma hd_least:
  "sorted_wrt (<) (map fst ps) \<Longrightarrow> (i, y) \<in> set ps \<Longrightarrow> fst (hd ps) \<le> (i::nat)"
  by (cases ps) auto

lemma np_interp_right:
  "sorted_wrt (<) (map fst ps) \<Longrightarrow> (i, yi) \<in> set ps \<Longrightarrow> \<forall>p \<in> set ps. fst p \<le> i
     \<Longrightarrow> i < k \<Longrightarrow> np_interp k ps = yi"
proof (induction k ps rule: np_interp.induct)
  case (1 x)
  then show ?case by simp
next
  case (2 x x0 y0)
  then show ?case by simp
next
  case (3 x x0 y0 x1 y1 ps)
  from "3.prems" have lt: "x0 < x1" and x1i: "x1 \<le> i" by auto
  with "3.prems" have mem: "(i, yi) \<in> set ((x1, y1) # ps)" by auto
  have "np_interp x ((x1, y1) # ps) = yi"
    using "3.IH" "3.prems" lt x1i mem by auto
  then show ?case using "3.prems" lt x1i by simp
qed

lemma np_interp_between:
  "sorted_wrt (<) (map fst ps) \<Longrightarrow> (i, yi) \<in> set ps \<Longrightarrow> (j, yj) \<in> set ps
     \<Longrightarrow> i < k \<Longrightarrow> k < j \<Longrightarrow> \<forall>p \<in> set ps. \<not> (i < fst p \<and> fst p < j)
     \<Longrightarrow> np_interp k ps = lin_interp k i yi j yj"
proof (induction k ps rule: np_interp.induct)
  case (1 x)
  then show ?case by simp
next
  case (2 x x0 y0)
  then show ?case by simp
next
  case (3 x x0 y0 x1 y1 ps)
  from "3.prems"(1) have lt: "x0 < x1" and tl: "\<forall>p \<in> set ps. x1 < fst p" 
    and tl0: "\<forall>p \<in> set ps. x0 < fst p" by auto
  show ?case
  proof (cases "x < x1")
    case True
    have i0: "i = x0" using "3.prems"(2,4) True tl by force
    then have yi: "yi = y0" using "3.prems"(2) lt tl0 by force
    have "j \<noteq> x0" using "3.prems"(4,5) i0 by simp
    then have jt: "(j, yj) \<in> set ((x1, y1) # ps)" using "3.prems"(3) by auto
    have "\<not> (i < x1 \<and> x1 < j)" using "3.prems"(6) by force
    then have "j \<le> x1" using i0 lt by simp
    then have j1: "j = x1" using jt tl by force
    then have "yj = y1" using jt tl by force
    then show ?thesis using True i0 yi j1 "3.prems"(4) by simp
  next
    case False
    have "i \<noteq> x0"
    proof
      assume "i = x0"
      then have "i < x1 \<and> x1 < j" using lt False "3.prems"(5) by simp
      then show False using "3.prems"(6) by force
    qed
    then have mi: "(i, yi) \<in> set ((x1, y1) # ps)" using "3.prems"(2) by auto
    have "j \<noteq> x0" using "3.prems"(4,5) False lt by simp
    then have mj: "(j, yj) \<in> set ((x1, y1) # ps)" using "3.prems"(3) by auto
    have "np_interp x ((x1, y1) # ps) = lin_interp x i yi j yj"
      using "3.IH" False "3.prems" mi mj lt by auto
    then show ?thesis using False lt by simp
  qed
qed

lemma lin_interp_Num:
  "i < j \<Longrightarrow> lin_interp k i (Num a) j (Num b)
     = Num ((b - a) / (of_nat j - of_nat i) * (of_nat k - of_nat i) + a)"
  by (simp add: lin_interp_def fl_sub_def Let_def)

lemma length_interpolate_1d [simp]: "length (interpolate_1d ys) = length ys"
  by (simp add: interpolate_1d_def Let_def)

lemma interpolate_1d_nth:
  assumes "k < length ys"
  shows "interpolate_1d ys ! k =
     (if valid_points ys = [] \<or> ys ! k \<noteq> NaN then ys ! k
      else if k < fst (hd (valid_points ys)) then NaN
      else np_interp k (valid_points ys))"
proof (cases "valid_points ys = [] \<or> length (valid_points ys) = length ys")
  case True
  show ?thesis
  proof (cases "valid_points ys = []")
    case True
    then show ?thesis by (simp add: interpolate_1d_def)
  next
    case False
    with True have "length (filter (\<lambda>(i, y). y \<noteq> NaN) (zip [0..<length ys] ys))
        = length (zip [0..<length ys] ys)"
      by (simp add: valid_points_def)
    then have "\<forall>p \<in> set (zip [0..<length ys] ys). snd p \<noteq> NaN"
      by (metis (mono_tags, lifting) case_prod_beta filter_id_conv length_filter_less
           less_irrefl)
    then have "ys ! k \<noteq> NaN" using assms by (force simp: set_zip)
    then show ?thesis using True by (simp add: interpolate_1d_def)
  qed
next
  case False
  then show ?thesis using assms by (simp add: interpolate_1d_def Let_def)
qed

lemma interpolate_1d_keep:
  "k < length ys \<Longrightarrow> ys ! k \<noteq> NaN \<Longrightarrow> interpolate_1d ys ! k = ys ! k"
  by (simp add: interpolate_1d_nth)

lemma interpolate_1d_leading:
  assumes "k < length ys" "\<forall>i \<le> k. ys ! i = NaN"
  shows "interpolate_1d ys ! k = NaN"
proof (cases "valid_points ys")
  case Nil
  then show ?thesis using assms by (simp add: interpolate_1d_nth)
next
  case (Cons p ps)
  then have "p \<in> set (valid_points ys)" by simp
  then have "ys ! fst p \<noteq> NaN" by (simp add: valid_points_mem)
  then have "k < fst p" using assms(2) by (meson not_le_imp_less)
  then show ?thesis using assms Cons by (simp add: interpolate_1d_nth)
qed

lemma interpolate_1d_trailing:
  assumes "i < k" "k < length ys" "ys ! i \<noteq> NaN" "\<forall>m. i < m \<and> m < length ys \<longrightarrow> ys ! m = NaN"
  shows "interpolate_1d ys ! k = ys ! i"
proof -
  have mem: "(i, ys ! i) \<in> set (valid_points ys)" using assms by (simp add: valid_points_iff)
  then have ne: "valid_points ys \<noteq> []" by auto
  have k: "ys ! k = NaN" using assms by simp
  have hd: "fst (hd (valid_points ys)) \<le> i" using hd_least[OF sorted_valid_points mem] .
  have top: "\<forall>p \<in> set (valid_points ys). fst p \<le> i"
  proof
    fix p assume "p \<in> set (valid_points ys)"
    then have "fst p < length ys" "ys ! fst p \<noteq> NaN" by (simp_all add: valid_points_mem)
    then show "fst p \<le> i" using assms(4) by (meson not_le_imp_less)
  qed
  have "np_interp k (valid_points ys) = ys ! i"
    using np_interp_right[OF sorted_valid_points mem top assms(1)] .
  then show ?thesis using assms(1,2) ne k hd by (simp add: interpolate_1d_nth)
qed

lemma interpolate_1d_interior:
  assumes "i < k" "k < j" "j < length ys" "ys ! i \<noteq> NaN" "ys ! j \<noteq> NaN"
    "\<forall>m. i < m \<and> m < j \<longrightarrow> ys ! m = NaN"
  shows "interpolate_1d ys ! k = lin_interp k i (ys ! i) j (ys ! j)"
proof -
  have mi: "(i, ys ! i) \<in> set (valid_points ys)" using assms by (simp add: valid_points_iff)
  have mj: "(j, ys ! j) \<in> set (valid_points ys)" using assms by (simp add: valid_points_iff)
  have ne: "valid_points ys \<noteq> []" using mi by auto
  have k: "ys ! k = NaN" using assms by simp
  have hd: "fst (hd (valid_points ys)) \<le> i" using hd_least[OF sorted_valid_points mi] .
  have gap: "\<forall>p \<in> set (valid_points ys). \<not> (i < fst p \<and> fst p < j)"
  proof
    fix p assume "p \<in> set (valid_points ys)"
    then have "ys ! fst p \<noteq> NaN" by (simp add: valid_points_mem)
    then show "\<not> (i < fst p \<and> fst p < j)" using assms(6) by blast
  qed
  have "np_interp k (valid_points ys) = lin_interp k i (ys ! i) j (ys ! j)"
    using np_interp_between[OF sorted_valid_points mi mj assms(1,2) gap] .
  then show ?thesis using assms(1,2,3) ne k hd by (simp add: interpolate_1d_nth)
qed

text \<open>The example of the pandas documentation.\<close>

lemma interpolate_1d_example:
  "interpolate_1d [NaN, NaN, Num 5, NaN, NaN, NaN, Num 13, NaN, NaN]
     = [NaN, NaN, Num 5, Num 7, Num 9, Num 11, Num 13, Num 13, Num 13]"
  by (simp add: interpolate_1d_def valid_points_def lin_interp_def fl_sub_def Let_def)

subsection \<open>The loop over the files\<close>

lemma product_nav_read_file:
  "product_nav (read_file warn q st f) =
     (case series_of f of
        None \<Rightarrow> product_nav st
      | Some s \<Rightarrow> AList.update (prod_name f) s (product_nav st))"
  by (simp add: read_file_def read_hist_def read_latest_def say_def series_of_def Let_def
           hist_raises_def split: workbook.splits hist.splits latest.splits)

lemma printed_read_file:
  "printed (read_file warn q st f) = printed st @ printed (read_file warn q scan0 f)"
  by (simp add: read_file_def read_hist_def read_latest_def say_def scan0_def Let_def
           hist_raises_def split: workbook.splits hist.splits latest.splits)

lemma printed_foldl:
  "printed (foldl (read_file warn q) st fs)
     = printed st @ concat (map (\<lambda>f. printed (read_file warn q scan0 f)) fs)"
proof (induction fs arbitrary: st)
  case Nil
  then show ?case by simp
next
  case (Cons f fs)
  show ?case using Cons.IH[of "read_file warn q st f"] printed_read_file[of warn q st f]
    by simp
qed

lemma map_of_product_nav_other:
  "\<forall>f \<in> set fs. prod_name f = p \<longrightarrow> series_of f = None
     \<Longrightarrow> map_of (product_nav (foldl (read_file warn q) st fs)) p = map_of (product_nav st) p"
proof (induction fs arbitrary: st)
  case Nil
  then show ?case by simp
next
  case (Cons f fs)
  have "map_of (product_nav (read_file warn q st f)) p = map_of (product_nav st) p"
    using Cons.prems by (auto simp: product_nav_read_file update_conv' split: option.splits)
  then show ?case using Cons by simp
qed

lemma distinct_product_nav_foldl:
  "distinct (map fst (product_nav st))
     \<Longrightarrow> distinct (map fst (product_nav (foldl (read_file warn q) st fs)))"
proof (induction fs arbitrary: st)
  case Nil
  then show ?case by simp
next
  case (Cons f fs)
  have "distinct (map fst (product_nav (read_file warn q st f)))"
    using Cons.prems by (simp add: product_nav_read_file distinct_update split: option.splits)
  then show ?case using Cons.IH by simp
qed

lemma distinct_product_nav: "distinct (map fst (product_nav (scan_folder warn q files)))"
  by (simp add: scan_folder_def distinct_product_nav_foldl scan0_def)

lemma set_update_subset: "set (AList.update k v al) \<subseteq> insert (k, v) (set al)"
  by (induction al) auto

lemma product_nav_not_nan_foldl:
  "\<forall>ps \<in> set (product_nav st). NaN \<notin> snd ` set (snd ps)
     \<Longrightarrow> \<forall>ps \<in> set (product_nav (foldl (read_file warn q) st fs)). NaN \<notin> snd ` set (snd ps)"
proof (induction fs arbitrary: st)
  case Nil
  then show ?case by simp
next
  case (Cons f fs)
  have "\<forall>ps \<in> set (product_nav (read_file warn q st f)). NaN \<notin> snd ` set (snd ps)"
  proof (cases "series_of f")
    case None
    then show ?thesis using Cons.prems by (simp add: product_nav_read_file)
  next
    case (Some s)
    then obtain rows where s: "s = hist_series rows"
      by (auto simp: series_of_def split: workbook.splits hist.splits if_splits)
    have "NaN \<notin> snd ` set s" using hist_series_not_nan[of _ NaN rows] s by auto
    then have "\<forall>ps \<in> insert (prod_name f, s) (set (product_nav st)). NaN \<notin> snd ` set (snd ps)"
      using Cons.prems by simp
    then have "\<forall>ps \<in> set (AList.update (prod_name f) s (product_nav st)).
        NaN \<notin> snd ` set (snd ps)"
      using set_update_subset[of "prod_name f" s "product_nav st"] by blast
    then show ?thesis using Some by (simp add: product_nav_read_file)
  qed
  then show ?case using Cons.IH by simp
qed

lemma product_nav_not_nan:
  "(p, s) \<in> set (product_nav (scan_folder warn q files)) \<Longrightarrow> (d, v) \<in> set s \<Longrightarrow> v \<noteq> NaN"
  using product_nav_not_nan_foldl[of scan0 warn q files]
  by (force simp: scan_folder_def scan0_def)

lemma product_nav_empty_foldl:
  "product_nav (foldl (read_file warn q) st fs) = []
     \<longleftrightarrow> product_nav st = [] \<and> (\<forall>f \<in> set fs. series_of f = None)"
proof (induction fs arbitrary: st)
  case Nil
  then show ?case by simp
next
  case (Cons f fs)
  show ?case by (auto simp: Cons.IH product_nav_read_file split: option.splits)
qed

lemma product_nav_empty_iff:
  "product_nav (scan_folder warn q files) = [] \<longleftrightarrow> (\<forall>f \<in> set files. series_of f = None)"
  by (simp add: scan_folder_def product_nav_empty_foldl scan0_def)

lemma cell_or_nan_known:
  "distinct (map fst s) \<Longrightarrow> (d, v) \<in> set s \<Longrightarrow> cell_or_nan s d = v"
  by (simp add: cell_or_nan_def)

lemma cell_or_nan_absent: "d \<notin> fst ` set s \<Longrightarrow> cell_or_nan s d = NaN"
proof -
  assume "d \<notin> fst ` set s"
  then have "map_of s d = None" by (simp add: map_of_eq_None_iff)
  then show ?thesis by (simp add: cell_or_nan_def)
qed

lemma cell_or_nan_NaN_iff:
  "NaN \<notin> snd ` set s \<Longrightarrow> cell_or_nan s d = NaN \<longleftrightarrow> d \<notin> fst ` set s"
proof
  assume n: "NaN \<notin> snd ` set s" and c: "cell_or_nan s d = NaN"
  show "d \<notin> fst ` set s"
  proof (cases "map_of s d")
    case None
    then show ?thesis by (simp add: map_of_eq_None_iff)
  next
    case (Some v)
    then have "(d, v) \<in> set s" by (rule map_of_SomeD)
    then have "v \<noteq> NaN" using n by force
    then show ?thesis using c Some by (simp add: cell_or_nan_def)
  qed
next
  assume "d \<notin> fst ` set s"
  then show "cell_or_nan s d = NaN" by (rule cell_or_nan_absent)
qed

lemma hist_series_last:
  assumes "rows = pre @ (Good d, Good v) # post" and "v \<noteq> NaN"
    and "\<forall>w. (Good d, Good w) \<in> set post \<longrightarrow> w = NaN"
  shows "map_of (hist_series rows) d = Some v"
proof -
  let ?co = "\<lambda>(d, v). (to_datetime d, to_numeric v)"
  let ?S = "\<lambda>rs. dropna_subset (map ?co (dropna_blank rs))"
  have split: "?S rows = ?S pre @ (d, v) # ?S post"
    using assms(1,2) by (simp add: dropna_blank_def dropna_subset_def)
  have "d \<notin> fst ` set (?S post)"
  proof
    assume "d \<in> fst ` set (?S post)"
    then obtain w where "(d, w) \<in> set (?S post)" by force
    then have "(Some d, w) \<in> set (map ?co (dropna_blank post))" and w: "w \<noteq> NaN"
      by (simp_all add: dropna_subset_iff)
    then obtain dx vx where m: "(dx, vx) \<in> set post"
      and dx: "to_datetime dx = Some d" and vx: "to_numeric vx = w"
      by (auto simp: dropna_blank_def)
    have "dx = Good d" using dx by (cases dx) auto
    moreover have "vx = Good w" using vx w by (cases vx) auto
    ultimately show False using m w assms(3) by blast
  qed
  then have "last (map snd (filter (\<lambda>r. fst r = d) (?S rows))) = v"
    using last_of_group[OF split] by simp
  moreover have "d \<in> fst ` set (?S rows)" using split by force
  ultimately show ?thesis by (simp add: hist_series_def map_of_groupby_last)
qed

lemma distinct_hist_series: "distinct (map fst (hist_series rows))"
  by (simp add: hist_series_def names_groupby_last)

lemma sorted_hist_series: "sorted (map fst (hist_series rows))"
  by (simp add: hist_series_def names_groupby_last)

subsection \<open>The calendar-resampled table\<close>

lemma plot_nav_Inr:
  "plot_nav df = Inr p \<longleftrightarrow>
     index df \<noteq> [] \<and> p = interpolate (reindex df [Min (set (index df))..Max (set (index df))])"
  by (auto simp: plot_nav_def full_idx_def date_range_def index_min_def index_max_def)

lemma plot_nav_Inl: "plot_nav df = Inl e \<longleftrightarrow> index df = [] \<and> e = ValueError"
  by (auto simp: plot_nav_def full_idx_def date_range_def index_min_def index_max_def)

lemma index_interpolate [simp]: "index (interpolate df) = index df"
  by (simp add: interpolate_def)

lemma names_interpolate: "map fst (columns (interpolate df)) = map fst (columns df)"
  by (simp add: interpolate_def case_prod_beta comp_def)

lemma map_of_columns_interpolate:
  "map_of (columns (interpolate df)) c = map_option interpolate_1d (map_of (columns df) c)"
  by (simp add: interpolate_def map_of_map)

lemma map_of_zip_upto:
  assumes "length xs = length [lo..hi]" "lo \<le> d" "d \<le> hi"
  shows "map_of (zip [lo..hi] xs) d = Some (xs ! nat (d - lo))"
proof -
  have k: "nat (d - lo) < length xs" using assms by simp
  have "[lo..hi] ! nat (d - lo) = d" using assms(2,3) by simp
  then show ?thesis
    using map_of_zip_nth[of "[lo..hi]" xs "nat (d - lo)"] assms(1) k by simp
qed

text \<open>The column of a label before the resampling, as a function of the date.\<close>

lemma cell_or_nan_zip:
  "map_of (columns df) c = Some vs
     \<Longrightarrow> cell_or_nan (zip (index df) vs) d = (case df_at df d c of None \<Rightarrow> NaN | Some v \<Rightarrow> v)"
  by (simp add: cell_or_nan_def df_at_def)

lemma df_at_plot:
  assumes "p = interpolate (reindex df [lo..hi])" "c \<in> fst ` set (columns df)"
    "lo \<le> d" "d \<le> hi"
  shows "df_at p d c =
     Some (interpolate_1d (map (\<lambda>d. case df_at df d c of None \<Rightarrow> NaN | Some v \<Rightarrow> v) [lo..hi])
             ! nat (d - lo))"
proof -
  obtain vs where vs: "map_of (columns df) c = Some vs"
    using assms(2) by (metis domD dom_map_of_conv_image_fst)
  have "map_of (columns p) c
      = Some (interpolate_1d (map (cell_or_nan (zip (index df) vs)) [lo..hi]))"
    using assms(1) vs by (simp add: map_of_columns_interpolate map_of_columns_reindex)
  moreover have "map (cell_or_nan (zip (index df) vs)) [lo..hi]
      = map (\<lambda>d. case df_at df d c of None \<Rightarrow> NaN | Some v \<Rightarrow> v) [lo..hi]"
    using vs by (simp add: cell_or_nan_zip)
  moreover have "index p = [lo..hi]" using assms(1) by simp
  ultimately show ?thesis using assms(3,4) by (simp add: df_at_def map_of_zip_upto)
qed

lemma nth_map_upto:
  "k < length [lo..hi] \<Longrightarrow> map g [lo..hi] ! k = g (lo + int k)"
  by simp

lemma notna_at_iff:
  "notna_at df d c \<longleftrightarrow> (case df_at df d c of None \<Rightarrow> NaN | Some v \<Rightarrow> v) \<noteq> NaN"
  by (simp add: notna_at_def split: option.splits)

lemma df_at_in_index: "df_at df d c = Some v \<Longrightarrow> d \<in> set (index df)"
  by (auto simp: df_at_def split: option.splits dest!: map_of_SomeD set_zip_leftD)

lemma index_bounds:
  "d \<in> set (index df) \<Longrightarrow> Min (set (index df)) \<le> d \<and> d \<le> Max (set (index df))"
  by simp

lemma plot_keep:
  assumes "p = interpolate (reindex df [lo..hi])" "c \<in> fst ` set (columns df)"
    "lo \<le> d" "d \<le> hi" "df_at df d c = Some v" "v \<noteq> NaN"
  shows "df_at p d c = Some v"
proof -
  let ?g = "\<lambda>d. case df_at df d c of None \<Rightarrow> NaN | Some v \<Rightarrow> v"
  have k: "nat (d - lo) < length (map ?g [lo..hi])" using assms(3,4) by simp
  have "map ?g [lo..hi] ! nat (d - lo) = v" using assms(3,4,5) by simp
  then have "interpolate_1d (map ?g [lo..hi]) ! nat (d - lo) = v"
    using interpolate_1d_keep[OF k] assms(6) by simp
  then show ?thesis using df_at_plot[OF assms(1-4)] by simp
qed

lemma plot_leading:
  assumes "p = interpolate (reindex df [lo..hi])" "c \<in> fst ` set (columns df)"
    "lo \<le> d" "d \<le> hi" "\<forall>d' \<le> d. \<not> notna_at df d' c"
  shows "df_at p d c = Some NaN"
proof -
  let ?g = "\<lambda>d. case df_at df d c of None \<Rightarrow> NaN | Some v \<Rightarrow> v"
  have k: "nat (d - lo) < length (map ?g [lo..hi])" using assms(3,4) by simp
  have "\<forall>i \<le> nat (d - lo). map ?g [lo..hi] ! i = NaN"
  proof (intro allI impI)
    fix i assume i: "i \<le> nat (d - lo)"
    then have "lo + int i \<le> d" using assms(3) by linarith
    then have "?g (lo + int i) = NaN" using assms(5) by (simp add: notna_at_iff)
    moreover have "i < length [lo..hi]" using i k by (simp only: length_map)
    ultimately show "map ?g [lo..hi] ! i = NaN" by (simp only: nth_map_upto)
  qed
  then have "interpolate_1d (map ?g [lo..hi]) ! nat (d - lo) = NaN"
    using interpolate_1d_leading[OF k] by blast
  then show ?thesis using df_at_plot[OF assms(1-4)] by simp
qed

lemma plot_trailing:
  assumes "p = interpolate (reindex df [lo..hi])" "c \<in> fst ` set (columns df)"
    "lo \<le> d0" "d0 < d" "d \<le> hi" "df_at df d0 c = Some v" "v \<noteq> NaN"
    "\<forall>d' > d0. \<not> notna_at df d' c"
  shows "df_at p d c = Some v"
proof -
  let ?g = "\<lambda>d. case df_at df d c of None \<Rightarrow> NaN | Some v \<Rightarrow> v"
  let ?ys = "map ?g [lo..hi]"
  have k: "nat (d - lo) < length ?ys" using assms(3,4,5) by simp
  have ik: "nat (d0 - lo) < nat (d - lo)" using assms(3,4) by linarith
  have i: "?ys ! nat (d0 - lo) = v" using assms(3,4,5,6) by simp
  have gap: "\<forall>m. nat (d0 - lo) < m \<and> m < length ?ys \<longrightarrow> ?ys ! m = NaN"
  proof (intro allI impI)
    fix m assume m: "nat (d0 - lo) < m \<and> m < length ?ys"
    then have "d0 < lo + int m" using assms(3) by linarith
    then have "?g (lo + int m) = NaN" using assms(8) by (simp add: notna_at_iff)
    moreover have "m < length [lo..hi]" using m by simp
    ultimately show "?ys ! m = NaN" by (simp only: nth_map_upto)
  qed
  have "interpolate_1d ?ys ! nat (d - lo) = ?ys ! nat (d0 - lo)"
    using interpolate_1d_trailing[OF ik k _ gap] i assms(7) by simp
  then show ?thesis using df_at_plot[OF assms(1,2), of d] assms(3,4,5) i by simp
qed

lemma plot_interior:
  assumes "p = interpolate (reindex df [lo..hi])" "c \<in> fst ` set (columns df)"
    "lo \<le> d1" "d1 < d" "d < d2" "d2 \<le> hi"
    "df_at df d1 c = Some (Num a)" "df_at df d2 c = Some (Num b)"
    "\<forall>d'. d1 < d' \<and> d' < d2 \<longrightarrow> \<not> notna_at df d' c"
  shows "df_at p d c = Some (Num (a + (b - a) * of_int (d - d1) / of_int (d2 - d1)))"
proof -
  let ?g = "\<lambda>d. case df_at df d c of None \<Rightarrow> NaN | Some v \<Rightarrow> v"
  let ?ys = "map ?g [lo..hi]"
  let ?i = "nat (d1 - lo)" and ?k = "nat (d - lo)" and ?j = "nat (d2 - lo)"
  have j: "?j < length ?ys" using assms(3-6) by simp
  have ik: "?i < ?k" and kj: "?k < ?j" using assms(3-6) by linarith+
  have yi: "?ys ! ?i = Num a" using assms(3-7) by simp
  have yj: "?ys ! ?j = Num b" using assms(3-8) by simp
  have gap: "\<forall>m. ?i < m \<and> m < ?j \<longrightarrow> ?ys ! m = NaN"
  proof (intro allI impI)
    fix m assume m: "?i < m \<and> m < ?j"
    then have "d1 < lo + int m \<and> lo + int m < d2" using assms(3-6) by linarith
    then have "?g (lo + int m) = NaN" using assms(9) by (simp add: notna_at_iff)
    moreover have "m < length [lo..hi]" using m j by (simp only: length_map) arith
    ultimately show "?ys ! m = NaN" by (simp only: nth_map_upto)
  qed
  have "interpolate_1d ?ys ! ?k = lin_interp ?k ?i (?ys ! ?i) ?j (?ys ! ?j)"
    using interpolate_1d_interior[OF ik kj j _ _ gap] yi yj by simp
  also have "\<dots> = Num ((b - a) / (of_nat ?j - of_nat ?i) * (of_nat ?k - of_nat ?i) + a)"
    using ik kj by (simp only: yi yj) (simp add: lin_interp_Num)
  also have "(of_nat ?j - of_nat ?i :: rat) = of_int (d2 - d1)"
    using assms(3-6) by simp
  also have "(of_nat ?k - of_nat ?i :: rat) = of_int (d - d1)"
    using assms(3-6) by simp
  finally have "interpolate_1d ?ys ! ?k = Num (a + (b - a) * of_int (d - d1) / of_int (d2 - d1))"
    by (simp add: add.commute)
  then show ?thesis using df_at_plot[OF assms(1,2), of d] assms(3-6) by simp
qed

subsection \<open>The baseline date and the normalised columns\<close>

lemma index_min_Some:
  "index_min xs = Some s \<longleftrightarrow> xs \<noteq> [] \<and> s \<in> set xs \<and> (\<forall>d \<in> set xs. s \<le> d)"
proof (cases "xs = []")
  case True
  then show ?thesis by (simp add: index_min_def)
next
  case False
  then have "Min (set xs) \<in> set xs" by simp
  moreover have "\<forall>d \<in> set xs. Min (set xs) \<le> d" by simp
  moreover have "s = Min (set xs)" if "s \<in> set xs" "\<forall>d \<in> set xs. s \<le> d"
    using that False by (simp add: antisym)
  ultimately show ?thesis using False by (auto simp: index_min_def)
qed

lemma start_date_Some:
  "start_date df = Some s \<longleftrightarrow>
     s \<in> set (index df) \<and> list_ex (notna_at df s) (fab_cols df)
     \<and> (\<forall>d \<in> set (index df). list_ex (notna_at df d) (fab_cols df) \<longrightarrow> s \<le> d)"
  by (auto simp: start_date_def index_min_Some filter_empty_conv)

lemma start_date_None:
  "start_date df = None \<longleftrightarrow> (\<forall>d \<in> set (index df). \<not> list_ex (notna_at df d) (fab_cols df))"
  by (auto simp: start_date_def index_min_def filter_empty_conv)

lemma suffix_inject [simp]: "x @ unified_suffix = y @ unified_suffix \<longleftrightarrow> x = y"
  by simp

lemma index_setitem [simp]: "index (setitem df c vs) = index df"
  by (simp add: setitem_def)

lemma norm_step_eq:
  assumes "distinct (map fst (columns df_raw))" "cv \<in> set (columns df_raw)"
  shows "norm_step df_raw dfn cv =
     (case norm_values df_raw (fst cv) of
        None \<Rightarrow> dfn
      | Some col \<Rightarrow> setitem dfn (fst cv @ unified_suffix) col)"
proof -
  have "map_of (columns df_raw) (fst cv) = Some (snd cv)" using assms by simp
  then show ?thesis by (simp add: norm_step_def norm_values_def split: option.splits)
qed

lemma index_norm_fold:
  "index (foldl (norm_step df_raw) dfn cs) = index dfn"
proof (induction cs arbitrary: dfn)
  case Nil
  then show ?case by simp
next
  case (Cons cv cs)
  have "index (norm_step df_raw dfn cv) = index dfn"
    by (simp add: norm_step_def split: option.splits)
  then show ?case using Cons.IH by simp
qed

lemma map_of_norm_fold:
  assumes "distinct (map fst (columns df_raw))" "set cs \<subseteq> set (columns df_raw)"
  shows "map_of (columns (foldl (norm_step df_raw) dfn cs)) (c @ unified_suffix) =
     (if c \<in> fst ` set cs \<and> norm_values df_raw c \<noteq> None then norm_values df_raw c
      else map_of (columns dfn) (c @ unified_suffix))"
  using assms(2)
proof (induction cs arbitrary: dfn)
  case Nil
  then show ?case by simp
next
  case (Cons cv cs)
  have cv: "cv \<in> set (columns df_raw)" and cs: "set cs \<subseteq> set (columns df_raw)"
    using Cons.prems by simp_all
  have step: "norm_step df_raw dfn cv =
     (case norm_values df_raw (fst cv) of
        None \<Rightarrow> dfn
      | Some col \<Rightarrow> setitem dfn (fst cv @ unified_suffix) col)"
    using norm_step_eq[OF assms(1) cv] .
  have head: "map_of (columns (norm_step df_raw dfn cv)) (c @ unified_suffix) =
     (if c = fst cv \<and> norm_values df_raw c \<noteq> None then norm_values df_raw c
      else map_of (columns dfn) (c @ unified_suffix))"
    by (auto simp: step setitem_def update_conv' split: option.splits)
  show ?case
    using Cons.IH[OF cs, of "norm_step df_raw dfn cv"] head by auto
qed

lemma names_norm_fold:
  assumes "distinct (map fst (columns df_raw))" "set cs \<subseteq> set (columns df_raw)"
  shows "fst ` set (columns (foldl (norm_step df_raw) dfn cs)) =
     fst ` set (columns dfn)
       \<union> {c @ unified_suffix | c. c \<in> fst ` set cs \<and> norm_values df_raw c \<noteq> None}"
  using assms(2)
proof (induction cs arbitrary: dfn)
  case Nil
  then show ?case by simp
next
  case (Cons cv cs)
  have cv: "cv \<in> set (columns df_raw)" and cs: "set cs \<subseteq> set (columns df_raw)"
    using Cons.prems by simp_all
  have step: "norm_step df_raw dfn cv =
     (case norm_values df_raw (fst cv) of
        None \<Rightarrow> dfn
      | Some col \<Rightarrow> setitem dfn (fst cv @ unified_suffix) col)"
    using norm_step_eq[OF assms(1) cv] .
  have head: "fst ` set (columns (norm_step df_raw dfn cv)) =
     fst ` set (columns dfn)
       \<union> {c @ unified_suffix | c. c = fst cv \<and> norm_values df_raw c \<noteq> None}"
    by (auto simp: step setitem_def dom_update split: option.splits)
  show ?case
    unfolding foldl_Cons Cons.IH[OF cs] head by auto
qed

lemma map_of_normalize:
  assumes "distinct (map fst (columns df_raw))" "c \<in> fst ` set (columns df_raw)"
    "norm_values df_raw c = Some col"
  shows "map_of (columns (normalize df_raw)) (c @ unified_suffix) = Some col"
  using map_of_norm_fold[OF assms(1) subset_refl, of df_raw c] assms(2,3)
  by (simp add: normalize_def)

lemma names_normalize:
  assumes "distinct (map fst (columns df_raw))"
  shows "fst ` set (columns (normalize df_raw)) =
     fst ` set (columns df_raw)
       \<union> {c @ unified_suffix | c. c \<in> fst ` set (columns df_raw) \<and> norm_values df_raw c \<noteq> None}"
  using names_norm_fold[OF assms subset_refl, of df_raw] by (simp add: normalize_def)

lemma index_normalize [simp]: "index (normalize df_raw) = index df_raw"
  by (simp add: normalize_def index_norm_fold)

lemma map_of_filter_key:
  "map_of (filter (\<lambda>cv. fst cv = l) cols) k = (if k = l then map_of cols k else None)"
  by (induction cols) auto

lemma map_of_select:
  "map_of (concat (map (\<lambda>l. filter (\<lambda>cv. fst cv = l) cols) labels)) k =
     (if k \<in> set labels then map_of cols k else None)"
  by (induction labels) (auto simp: map_of_append map_of_filter_key map_add_def
        split: option.splits)

lemma map_of_columns_select:
  "map_of (columns (select_cols df labels)) k =
     (if k \<in> set labels then map_of (columns df) k else None)"
  by (simp add: select_cols_def map_of_select)

lemma names_select:
  "fst ` set (columns (select_cols df labels)) = set labels \<inter> fst ` set (columns df)"
  by (auto simp: select_cols_def)

lemma index_select [simp]: "index (select_cols df labels) = index df"
  by (simp add: select_cols_def)

lemma set_order_cols:
  "set (order_cols df_raw dfn) =
     fst ` set (columns df_raw)
       \<union> {c @ unified_suffix | c. c \<in> fst ` set (columns df_raw)
                                  \<and> c @ unified_suffix \<in> fst ` set (columns dfn)}"
  by (auto simp: order_cols_def)

lemma index_df_norm [simp]: "index (df_norm df_raw) = index df_raw"
  by (simp add: df_norm_def Let_def)

lemma map_of_zip_map2:
  "map_of (zip xs (map f ys)) d = map_option f (map_of (zip xs ys) d)"
proof -
  have "zip xs (map f ys) = map (\<lambda>(x, y). (x, f y)) (zip xs ys)"
    by (simp add: zip_map2 case_prod_beta)
  then show ?thesis by (simp add: map_of_map)
qed

lemma df_at_df_norm:
  assumes "distinct (map fst (columns df_raw))" "c \<in> fst ` set (columns df_raw)"
    "c \<notin> set (fab_cols df_raw)" "baseline df_raw (start_date df_raw) c = Some b"
    "df_at df_raw d c = Some v"
  shows "df_at (df_norm df_raw) d (c @ unified_suffix) = Some (fl_div v b)"
proof -
  obtain vs where vs: "map_of (columns df_raw) c = Some vs"
    using assms(2) by (metis domD dom_map_of_conv_image_fst)
  have nv: "norm_values df_raw c = Some (map (\<lambda>v. fl_div v b) vs)"
    using assms(3,4) vs by (simp add: norm_values_def)
  have m: "map_of (columns (normalize df_raw)) (c @ unified_suffix)
      = Some (map (\<lambda>v. fl_div v b) vs)"
    using map_of_normalize[OF assms(1,2) nv] .
  then have "c @ unified_suffix \<in> fst ` set (columns (normalize df_raw))"
    by (metis map_of_SomeD image_eqI fst_conv)
  then have "c @ unified_suffix \<in> set (order_cols df_raw (normalize df_raw))"
    using assms(2) by (auto simp: set_order_cols)
  then have "map_of (columns (df_norm df_raw)) (c @ unified_suffix)
      = Some (map (\<lambda>v. fl_div v b) vs)"
    using m by (simp add: df_norm_def Let_def map_of_columns_select)
  moreover have "map_of (zip (index df_raw) vs) d = Some v"
    using assms(5) vs by (simp add: df_at_def)
  ultimately show ?thesis by (simp add: df_at_def map_of_zip_map2)
qed

lemma names_df_norm:
  assumes "distinct (map fst (columns df_raw))"
  shows "fst ` set (columns (df_norm df_raw)) =
     fst ` set (columns df_raw)
       \<union> {c @ unified_suffix | c. c \<in> fst ` set (columns df_raw) \<and> norm_values df_raw c \<noteq> None}"
  by (auto simp: df_norm_def Let_def names_select set_order_cols names_normalize[OF assms])

lemma distinct_names_merged_nav:
  "distinct (map fst (columns (merged_nav (product_nav (scan_folder warn q files)))))"
  by (simp add: names_merged_nav distinct_product_nav)

subsection \<open>The rows of the normalised chart table\<close>

lemma df_plot_norm_Inr:
  "df_plot_norm df = Inr p \<longleftrightarrow>
     index df \<noteq> [] \<and>
     p = filter_rows (ge_start (start_date df))
           (interpolate (reindex (df_norm df) [Min (set (index df))..Max (set (index df))]))"
  by (auto simp: df_plot_norm_def full_idx_def date_range_def index_min_def index_max_def)

lemma index_filter_rows [simp]: "index (filter_rows P df) = filter P (index df)"
  by (simp add: filter_rows_def)

lemma filter_upto_from:
  assumes "lo \<le> s"
  shows "filter (\<lambda>d. s \<le> d) [lo..hi] = [s..hi]"
proof (rule sorted_distinct_set_unique)
  show "sorted (filter (\<lambda>d. s \<le> d) [lo..hi])" by (simp add: sorted_wrt_filter)
  show "distinct (filter (\<lambda>d. s \<le> d) [lo..hi])" by simp
  show "sorted [s..hi]" by simp
  show "distinct [s..hi]" by simp
  show "set (filter (\<lambda>d. s \<le> d) [lo..hi]) = set [s..hi]" using assms by auto
qed

lemma map_of_filter_fst:
  "map_of (filter (\<lambda>dv. P (fst dv)) xs) d = (if P d then map_of xs d else None)"
  by (induction xs) auto

lemma filter_index_zip:
  assumes "length vs = length idx"
  shows "filter P idx = map fst (filter (\<lambda>dv. P (fst dv)) (zip idx vs))"
proof -
  have "filter P idx = filter P (map fst (zip idx vs))" using assms by simp
  also have "\<dots> = map fst (filter (\<lambda>dv. P (fst dv)) (zip idx vs))"
    by (simp add: filter_map comp_def)
  finally show ?thesis .
qed

lemma zip_filter_rows:
  assumes "length vs = length idx"
  shows "zip (filter P idx) (map snd (filter (\<lambda>dv. P (fst dv)) (zip idx vs)))
     = filter (\<lambda>dv. P (fst dv)) (zip idx vs)"
  by (simp only: filter_index_zip[OF assms, of P] zip_map_fst_snd)

lemma map_of_columns_filter_rows:
  "map_of (columns (filter_rows P df)) c
     = map_option (\<lambda>vs. map snd (filter (\<lambda>dv. P (fst dv)) (zip (index df) vs)))
         (map_of (columns df) c)"
  by (simp add: filter_rows_def map_of_map)

lemma names_filter_rows: "map fst (columns (filter_rows P df)) = map fst (columns df)"
  by (simp add: filter_rows_def case_prod_beta comp_def)

lemma df_at_filter_rows:
  assumes "\<forall>cv \<in> set (columns df). length (snd cv) = length (index df)"
  shows "df_at (filter_rows P df) d c = (if P d then df_at df d c else None)"
proof (cases "map_of (columns df) c")
  case None
  then show ?thesis by (simp add: df_at_def map_of_columns_filter_rows)
next
  case (Some vs)
  then have "(c, vs) \<in> set (columns df)" by (rule map_of_SomeD)
  then have "length vs = length (index df)" using assms by force
  then show ?thesis
    using Some
    by (simp add: df_at_def map_of_columns_filter_rows zip_filter_rows map_of_filter_fst)
qed

lemma length_columns_filter_rows:
  assumes "\<forall>cv \<in> set (columns df). length (snd cv) = length (index df)"
  shows "\<forall>cv \<in> set (columns (filter_rows P df)). length (snd cv) = length (index (filter_rows P df))"
proof
  fix cv assume "cv \<in> set (columns (filter_rows P df))"
  then obtain c vs where m: "(c, vs) \<in> set (columns df)"
    and cv: "cv = (c, map snd (filter (\<lambda>dv. P (fst dv)) (zip (index df) vs)))"
    by (auto simp: filter_rows_def)
  have len: "length vs = length (index df)" using m assms by force
  have "length (filter P (index df))
      = length (map fst (filter (\<lambda>dv. P (fst dv)) (zip (index df) vs)))"
    by (simp only: filter_index_zip[OF len, of P])
  then show "length (snd cv) = length (index (filter_rows P df))" using cv by simp
qed

lemma length_columns_resampled:
  "\<forall>cv \<in> set (columns (interpolate (reindex df idx))). length (snd cv) = length idx"
  by (auto simp: interpolate_def reindex_def)

subsection \<open>The product-information sheet\<close>

lemma pos_of_Some:
  "l \<in> set cs \<Longrightarrow> \<exists>i. pos_of l cs = Some i \<and> i < length cs \<and> cs ! i = l"
  by (induction cs) auto

lemma pos_of_None: "l \<notin> set cs \<Longrightarrow> pos_of l cs = None"
  by (induction cs) auto

lemma pos_of_nth: "distinct cs \<Longrightarrow> i < length cs \<Longrightarrow> pos_of (cs ! i) cs = Some i"
proof (induction cs arbitrary: i)
  case Nil
  then show ?case by simp
next
  case (Cons c cs)
  then show ?case by (cases i) auto
qed

lemma read_back_original:
  assumes "distinct cs" "length r = length cs"
  shows "map (\<lambda>l. r ! the (pos_of l cs)) cs = r"
  using assms by (auto intro!: nth_equalityI simp: pos_of_nth)

lemma read_back_selected:
  assumes "l \<in> set labels"
  shows "map f labels ! the (pos_of l labels) = f l"
proof -
  obtain i where "pos_of l labels = Some i" "i < length labels" "labels ! i = l"
    using pos_of_Some[OF assms] by blast
  then show ?thesis by simp
qed

lemma select_info_Inr:
  assumes "set labels \<subseteq> set (lk_columns t)"
  shows "select_info t labels =
     Inr \<lparr>lk_columns = labels,
          lk_rows = map (\<lambda>r. map (\<lambda>l. r ! the (pos_of l (lk_columns t))) labels) (lk_rows t)\<rparr>"
  using assms by (auto simp: select_info_def list_all_iff)

lemma remaining_columns:
  "filter (\<lambda>c. c \<notin> set (filter (\<lambda>c. c \<in> set cs) ds)) cs = filter (\<lambda>c. c \<notin> set ds) cs"
  by (rule filter_cong) auto

subsection \<open>Folders without a series\<close>

lemma series_of_None_iff:
  "series_of f = None \<longleftrightarrow>
     prod_name f = date_label \<or> (\<forall>rows l. book f \<noteq> Workbook (HistRows rows) l)"
  by (auto simp: series_of_def split: workbook.splits hist.splits)

subsection \<open>The sheets of a report\<close>

lemma report_v1_sheets:
  assumes "process_folder_v1 q b = (ms, Inr (Some rep))"
  shows "nav_sheet rep = merged_nav (product_nav (scan_folder True (q \<noteq> None) (snd b)))
       \<and> plot_nav (nav_sheet rep) = Inr (plot_sheet rep)
       \<and> df_info_v1 q (codes_in_folder (scan_folder True (q \<noteq> None) (snd b)))
           = Inr (info_sheet rep)"
  using assms
  by (auto simp: process_folder_v1_def Let_def split: if_splits sum.splits)

lemma report_v2_sheets:
  assumes "process_folder_v2 q b = (ms, Inr (Some rep))"
  shows "raw_sheet rep = merged_nav (product_nav (scan_folder False (q \<noteq> None) (snd b)))
       \<and> unified_sheet rep = df_norm (raw_sheet rep)
       \<and> plot_nav (raw_sheet rep) = Inr (raw_plot_sheet rep)
       \<and> df_plot_norm (raw_sheet rep) = Inr (unified_plot_sheet rep)
       \<and> df_info_v2 q (codes_in_folder (scan_folder False (q \<noteq> None) (snd b)))
           = Inr (info_sheet2 rep)"
  using assms
  by (auto simp: process_folder_v2_def Let_def split: if_splits sum.splits)

subsection \<open>The folders of the examples\<close>

lemma demo_product_nav:
  "product_nav (scan_folder warn q demo_files) =
     [([27861, 24052, 65], [(1, Num 1), (2, Num (101 / 100)), (3, Num (51 / 50)),
                            (4, Num (103 / 100)), (5, Num (21 / 20))]),
      ([88], [(1, Num 100), (2, Num 101), (3, Num 102)])]"
  by (simp add: scan_folder_def demo_files_def scan0_def read_file_def hist_raises_def date_label_def read_hist_def
        read_latest_def say_def hist_series_def groupby_last_def dropna_subset_def
        dropna_blank_def Let_def)

lemma demo_merged_nav:
  "merged_nav
     [([27861, 24052, 65], [(1, Num 1), (2, Num (101 / 100)), (3, Num (51 / 50)),
                            (4, Num (103 / 100)), (5, Num (21 / 20))]),
      ([88], [(1, Num 100), (2, Num 101), (3, Num 102)])] =
     \<lparr>index = [1, 2, 3, 4, 5],
      columns = [([27861, 24052, 65], [Num 1, Num (101 / 100), Num (51 / 50),
                                       Num (103 / 100), Num (21 / 20)]),
                 ([88], [Num 100, Num 101, Num 102, NaN, NaN])]\<rparr>"
  by (simp add: merged_nav_def sort_index_def concat_axis1_def reindex_def cell_or_nan_def)

lemma demo_plot_nav:
  "plot_nav (merged_nav (product_nav (scan_folder warn q demo_files))) =
     Inr \<lparr>index = [1, 2, 3, 4, 5],
          columns = [([27861, 24052, 65], [Num 1, Num (101 / 100), Num (51 / 50),
                                           Num (103 / 100), Num (21 / 20)]),
                     ([88], [Num 100, Num 101, Num 102, Num 102, Num 102])]\<rparr>"
  by (simp add: demo_product_nav demo_merged_nav plot_nav_def full_idx_def date_range_def
        index_min_def index_max_def reindex_def cell_or_nan_def interpolate_def upto_rec1)
     (simp add: interpolate_1d_def valid_points_def)

lemma late_start_merged:
  "merged_nav (product_nav (scan_folder warn q late_start_files)) =
     \<lparr>index = [1, 2, 3, 5],
      columns = [([27861, 24052, 65], [NaN, Num 1, NaN, Num 4]),
                 ([88], [Num 50, Num 100, Num 102, NaN])]\<rparr>"
  by (simp add: scan_folder_def late_start_files_def scan0_def read_file_def hist_raises_def date_label_def read_hist_def
        read_latest_def say_def hist_series_def groupby_last_def dropna_subset_def
        dropna_blank_def Let_def merged_nav_def sort_index_def concat_axis1_def reindex_def
        cell_or_nan_def)

lemma late_start_fab_cols:
  "fab_cols \<lparr>index = [1, 2, 3, 5],
      columns = [([27861, 24052, 65], [NaN, Num 1, NaN, Num 4]),
                 ([88], [Num 50, Num 100, Num 102, NaN])]\<rparr> = [[27861, 24052, 65]]"
  by (simp add: fab_cols_def fab_def)

lemma late_start_start_date:
  "start_date \<lparr>index = [1, 2, 3, 5],
      columns = [([27861, 24052, 65], [NaN, Num 1, NaN, Num 4]),
                 ([88], [Num 50, Num 100, Num 102, NaN])]\<rparr> = Some 2"
  by (simp add: start_date_def late_start_fab_cols notna_at_def df_at_def index_min_def)

lemma late_start_df_norm:
  "df_norm \<lparr>index = [1, 2, 3, 5],
      columns = [([27861, 24052, 65], [NaN, Num 1, NaN, Num 4]),
                 ([88], [Num 50, Num 100, Num 102, NaN])]\<rparr> =
     \<lparr>index = [1, 2, 3, 5],
      columns = [([27861, 24052, 65], [NaN, Num 1, NaN, Num 4]),
                 ([88], [Num 50, Num 100, Num 102, NaN]),
                 ([88, 65288, 32479, 19968, 22522, 20934, 65289],
                  [Num (1 / 2), Num 1, Num (51 / 50), NaN])]\<rparr>"
  by (simp add: df_norm_def normalize_def norm_step_def late_start_fab_cols
        late_start_start_date baseline_def df_at_def setitem_def order_cols_def
        select_cols_def unified_suffix_def Let_def)

lemma zero_base_merged:
  "merged_nav (product_nav (scan_folder warn q zero_base_files)) =
     \<lparr>index = [1, 2],
      columns = [([27861, 24052, 65], [Num 1, NaN]), ([88], [Num 0, Num 5])]\<rparr>"
  by (simp add: scan_folder_def zero_base_files_def scan0_def read_file_def hist_raises_def date_label_def read_hist_def
        read_latest_def say_def hist_series_def groupby_last_def dropna_subset_def
        dropna_blank_def Let_def merged_nav_def sort_index_def concat_axis1_def reindex_def
        cell_or_nan_def)

lemma zero_base_fab_cols:
  "fab_cols \<lparr>index = [1, 2],
      columns = [([27861, 24052, 65], [Num 1, NaN]), ([88], [Num 0, Num 5])]\<rparr>
     = [[27861, 24052, 65]]"
  by (simp add: fab_cols_def fab_def)

lemma zero_base_start_date:
  "start_date \<lparr>index = [1, 2],
      columns = [([27861, 24052, 65], [Num 1, NaN]), ([88], [Num 0, Num 5])]\<rparr> = Some 1"
  by (simp add: start_date_def zero_base_fab_cols notna_at_def df_at_def index_min_def)

lemma zero_base_df_norm:
  "df_norm \<lparr>index = [1, 2],
      columns = [([27861, 24052, 65], [Num 1, NaN]), ([88], [Num 0, Num 5])]\<rparr> =
     \<lparr>index = [1, 2],
      columns = [([27861, 24052, 65], [Num 1, NaN]), ([88], [Num 0, Num 5]),
                 ([88, 65288, 32479, 19968, 22522, 20934, 65289], [NaN, PInf])]\<rparr>"
  by (simp add: df_norm_def normalize_def norm_step_def zero_base_fab_cols
        zero_base_start_date baseline_def df_at_def setitem_def order_cols_def
        select_cols_def unified_suffix_def fl_inf_def Let_def)

lemma late_start_interpolated:
  "interpolate (reindex
     \<lparr>index = [1, 2, 3, 5],
      columns = [([27861, 24052, 65], [NaN, Num 1, NaN, Num 4]),
                 ([88], [Num 50, Num 100, Num 102, NaN]),
                 ([88, 65288, 32479, 19968, 22522, 20934, 65289],
                  [Num (1 / 2), Num 1, Num (51 / 50), NaN])]\<rparr> [1, 2, 3, 4, 5]) =
     \<lparr>index = [1, 2, 3, 4, 5],
      columns = [([27861, 24052, 65], [NaN, Num 1, Num 2, Num 3, Num 4]),
                 ([88], [Num 50, Num 100, Num 102, Num 102, Num 102]),
                 ([88, 65288, 32479, 19968, 22522, 20934, 65289],
                  [Num (1 / 2), Num 1, Num (51 / 50), Num (51 / 50), Num (51 / 50)])]\<rparr>"
  by (simp add: reindex_def cell_or_nan_def interpolate_def)
     (simp add: interpolate_1d_def valid_points_def lin_interp_def fl_sub_def Let_def)

lemma same_name_product_nav:
  "product_nav (scan_folder warn q same_name_files) =
     [([88], [(2, Num 9)]), ([89], [(1, Num 5)])]"
  by (simp add: scan_folder_def same_name_files_def scan0_def read_file_def hist_raises_def
        date_label_def read_hist_def read_latest_def say_def hist_series_def groupby_last_def
        dropna_subset_def dropna_blank_def Let_def)

lemma same_name_merged:
  "merged_nav [([88], [(2, Num 9)]), ([89], [(1, Num 5)])] =
     \<lparr>index = [1, 2], columns = [([88], [NaN, Num 9]), ([89], [Num 5, NaN])]\<rparr>"
  by (simp add: merged_nav_def sort_index_def concat_axis1_def reindex_def cell_or_nan_def)

section \<open>The claims\<close>

text \<open>
  The chart table of variant 1 and the raw chart table of variant 2 are \<open>plot_nav\<close> of
  the merged table of the folder, and the normalised tables of variant 2 are \<open>df_norm\<close>
  and \<open>df_plot_norm\<close> of it (\<open>report_v1_sheets\<close>, \<open>report_v2_sheets\<close>): the theorems
  below are stated on these functions.
\<close>

text \<open>
  C1, as the code has it. In the calendar-resampled table (\<open>plot_nav\<close> of variant 1,
  \<open>df_plot_raw\<close> of variant 2, both \<open>plot_nav\<close> of the merged table here), a cell on a day
  with no known value of the column on or before it stays null; a cell on a day after
  the last known value of the column is not null: it holds that last known value; a
  cell strictly between two numbers of the column with nothing known between them is
  their linear interpolation.
\<close>

theorem interpolation_keeps_leading_gap_fills_trailing_gap:
  assumes "plot_nav df = Inr p" and "c \<in> fst ` set (columns df)" and "d \<in> set (index p)"
  shows "((\<forall>d' \<le> d. \<not> notna_at df d' c) \<longrightarrow> df_at p d c = Some NaN)
       \<and> (\<forall>d0 v. d0 \<le> d \<and> df_at df d0 c = Some v \<and> v \<noteq> NaN
                  \<and> (\<forall>d' > d0. \<not> notna_at df d' c)
              \<longrightarrow> df_at p d c = Some v)
       \<and> (\<forall>d1 d2 a b. d1 < d \<and> d < d2
                  \<and> df_at df d1 c = Some (Num a) \<and> df_at df d2 c = Some (Num b)
                  \<and> (\<forall>d'. d1 < d' \<and> d' < d2 \<longrightarrow> \<not> notna_at df d' c)
              \<longrightarrow> df_at p d c = Some (Num (a + (b - a) * of_int (d - d1) / of_int (d2 - d1))))"
proof -
  let ?lo = "Min (set (index df))" and ?hi = "Max (set (index df))"
  have p: "p = interpolate (reindex df [?lo..?hi])" using assms(1) by (simp add: plot_nav_Inr)
  then have d: "?lo \<le> d" "d \<le> ?hi" using assms(3) by simp_all
  have lead: "df_at p d c = Some NaN" if "\<forall>d' \<le> d. \<not> notna_at df d' c"
    using plot_leading[OF p assms(2) d that] .
  have trail: "df_at p d c = Some v"
    if h: "d0 \<le> d" "df_at df d0 c = Some v" "v \<noteq> NaN" "\<forall>d' > d0. \<not> notna_at df d' c"
    for d0 v
  proof (cases "d0 = d")
    case True
    then show ?thesis using plot_keep[OF p assms(2) d] h by simp
  next
    case False
    then have lt: "d0 < d" using h(1) by simp
    have "d0 \<in> set (index df)" using h(2) by (rule df_at_in_index)
    then have "?lo \<le> d0" by simp
    then show ?thesis using plot_trailing[OF p assms(2) _ lt d(2) h(2,3,4)] by simp
  qed
  have mid: "df_at p d c = Some (Num (a + (b - a) * of_int (d - d1) / of_int (d2 - d1)))"
    if h: "d1 < d" "d < d2" "df_at df d1 c = Some (Num a)" "df_at df d2 c = Some (Num b)"
      "\<forall>d'. d1 < d' \<and> d' < d2 \<longrightarrow> \<not> notna_at df d' c"
    for d1 d2 a b
  proof -
    have "d1 \<in> set (index df)" "d2 \<in> set (index df)"
      using h(3,4) by (auto dest: df_at_in_index)
    then have "?lo \<le> d1" "d2 \<le> ?hi" by simp_all
    then show ?thesis using plot_interior[OF p assms(2) _ h(1,2) _ h(3,4,5)] by simp
  qed
  show ?thesis using lead trail mid by blast
qed

theorem interpolation_keeps_leading_gap_fills_trailing_gap_witness:
  "df_at \<lparr>index = [1, 2, 3, 4, 5],
          columns = [([27861, 24052, 65], [Num 1, Num (101 / 100), Num (51 / 50),
                                           Num (103 / 100), Num (21 / 20)]),
                     ([88], [Num 100, Num 101, Num 102, Num 102, Num 102])]\<rparr> 5 [88]
     = Some (Num 102)"
proof -
  let ?m = "merged_nav (product_nav (scan_folder True False demo_files))"
  let ?p = "\<lparr>index = [1, 2, 3, 4, 5],
          columns = [([27861, 24052, 65], [Num 1, Num (101 / 100), Num (51 / 50),
                                           Num (103 / 100), Num (21 / 20)]),
                     ([88], [Num 100, Num 101, Num 102, Num 102, Num 102])]\<rparr>"
  have m: "?m = \<lparr>index = [1, 2, 3, 4, 5],
      columns = [([27861, 24052, 65], [Num 1, Num (101 / 100), Num (51 / 50),
                                       Num (103 / 100), Num (21 / 20)]),
                 ([88], [Num 100, Num 101, Num 102, NaN, NaN])]\<rparr>"
    by (simp add: demo_product_nav demo_merged_nav)
  have a: "plot_nav ?m = Inr ?p" by (rule demo_plot_nav)
  have b: "[88] \<in> fst ` set (columns ?m)" by (simp add: m)
  have c: "5 \<in> set (index ?p)" by simp
  have e: "(3::int) \<le> 5 \<and> df_at ?m 3 [88] = Some (Num 102) \<and> Num 102 \<noteq> NaN
      \<and> (\<forall>d' > 3. \<not> notna_at ?m d' [88])"
    by (simp add: m notna_at_def df_at_def)
  show ?thesis
    using interpolation_keeps_leading_gap_fills_trailing_gap[OF a b c] e by blast
qed

text \<open>
  C1 as the specification states it fails: in the folder of the examples the competitor
  has its last known value, 102, on day 3, and the resampled table holds 102, not
  null, on the days 4 and 5.
\<close>

theorem trailing_gap_is_filled_counterexample:
  "df_at (merged_nav (product_nav (scan_folder True False demo_files))) 3 [88] = Some (Num 102)
   \<and> df_at (merged_nav (product_nav (scan_folder True False demo_files))) 4 [88] = Some NaN
   \<and> df_at (merged_nav (product_nav (scan_folder True False demo_files))) 5 [88] = Some NaN
   \<and> plot_nav (merged_nav (product_nav (scan_folder True False demo_files))) =
       Inr \<lparr>index = [1, 2, 3, 4, 5],
            columns = [([27861, 24052, 65], [Num 1, Num (101 / 100), Num (51 / 50),
                                             Num (103 / 100), Num (21 / 20)]),
                       ([88], [Num 100, Num 101, Num 102, Num 102, Num 102])]\<rparr>
   \<and> df_at \<lparr>index = [1, 2, 3, 4, 5],
            columns = [([27861, 24052, 65], [Num 1, Num (101 / 100), Num (51 / 50),
                                             Num (103 / 100), Num (21 / 20)]),
                       ([88], [Num 100, Num 101, Num 102, Num 102, Num 102])]\<rparr> 4 [88]
       \<noteq> Some NaN"
  by (simp add: demo_plot_nav) (simp add: demo_product_nav demo_merged_nav df_at_def)

text \<open>
  C2, as the code has it. In variant 2 a product outside the reference group gets no
  normalised column when no reference column has a value on any date of the merged
  table, and when its own value at the baseline date is null: the body of the loop
  leaves the table as it is, and the table written to the report has no column with the
  product name followed by the suffix, unless the folder holds a product of that very
  name. The loop tests the baseline value for null only, not for zero.
\<close>

theorem no_normalized_column_without_baseline_value:
  assumes "df_raw = merged_nav (product_nav (scan_folder False q files))"
    and "c \<in> fst ` set (columns df_raw)" and "c \<notin> set (fab_cols df_raw)"
    and "(\<forall>d \<in> set (index df_raw). \<not> list_ex (notna_at df_raw d) (fab_cols df_raw))
         \<or> (\<exists>s. start_date df_raw = Some s \<and> df_at df_raw s c = Some NaN)"
  shows "(\<forall>dfn vs. norm_step df_raw dfn (c, vs) = dfn)
       \<and> (c @ unified_suffix \<notin> fst ` set (columns df_raw)
            \<longrightarrow> c @ unified_suffix \<notin> fst ` set (columns (df_norm df_raw)))"
proof -
  have b: "baseline df_raw (start_date df_raw) c = None"
    using assms(4) by (auto simp: baseline_def start_date_None[symmetric])
  then have nv: "norm_values df_raw c = None" by (simp add: norm_values_def)
  have dist: "distinct (map fst (columns df_raw))"
    using assms(1) by (simp add: distinct_names_merged_nav)
  have "\<forall>dfn vs. norm_step df_raw dfn (c, vs) = dfn" using b by (simp add: norm_step_def)
  moreover have "c @ unified_suffix \<notin> fst ` set (columns (df_norm df_raw))"
    if "c @ unified_suffix \<notin> fst ` set (columns df_raw)"
    using that nv by (auto simp: names_df_norm[OF dist])
  ultimately show ?thesis by blast
qed

theorem no_normalized_column_without_baseline_value_witness:
  "[27861, 24052, 65] @ unified_suffix
     \<notin> fst ` set (columns (df_norm (merged_nav (product_nav (scan_folder False False
          [\<lparr>file_name = [49], prod_name = [27861, 24052, 65],
             book = Workbook (HistRows [(Good 2, Good (Num 1))]) NoLatestSheet\<rparr>,
           \<lparr>file_name = [50], prod_name = [88],
             book = Workbook (HistRows [(Good 1, Good (Num 50))]) NoLatestSheet\<rparr>])))))
   \<and> [88] @ unified_suffix
     \<notin> fst ` set (columns (df_norm (merged_nav (product_nav (scan_folder False False
          [\<lparr>file_name = [49], prod_name = [27861, 24052, 65],
             book = Workbook (HistRows [(Good 2, Good (Num 1))]) NoLatestSheet\<rparr>,
           \<lparr>file_name = [50], prod_name = [88],
             book = Workbook (HistRows [(Good 1, Good (Num 50))]) NoLatestSheet\<rparr>])))))"
proof -
  let ?files = "[\<lparr>file_name = [49], prod_name = [27861, 24052, 65],
             book = Workbook (HistRows [(Good 2, Good (Num 1))]) NoLatestSheet\<rparr>,
           \<lparr>file_name = [50], prod_name = [88],
             book = Workbook (HistRows [(Good 1, Good (Num 50))]) NoLatestSheet\<rparr>]"
  let ?raw = "merged_nav (product_nav (scan_folder False False ?files))"
  have m: "?raw = \<lparr>index = [1, 2],
      columns = [([27861, 24052, 65], [NaN, Num 1]), ([88], [Num 50, NaN])]\<rparr>"
    by (simp add: scan_folder_def scan0_def read_file_def hist_raises_def date_label_def read_hist_def
        read_latest_def say_def hist_series_def groupby_last_def dropna_subset_def
        dropna_blank_def Let_def merged_nav_def sort_index_def concat_axis1_def reindex_def
        cell_or_nan_def)
  have f: "fab_cols ?raw = [[27861, 24052, 65]]" by (simp add: m fab_cols_def fab_def)
  have s: "start_date ?raw = Some 2"
    by (simp add: start_date_def f) (simp add: m notna_at_def df_at_def index_min_def)
  have c: "[88] \<in> fst ` set (columns ?raw)" by (simp add: m)
  have nf: "[88] \<notin> set (fab_cols ?raw)" by (simp add: f)
  have h: "(\<forall>d \<in> set (index ?raw). \<not> list_ex (notna_at ?raw d) (fab_cols ?raw))
         \<or> (\<exists>s. start_date ?raw = Some s \<and> df_at ?raw s [88] = Some NaN)"
    using s by (simp add: m df_at_def)
  have n: "[88] @ unified_suffix \<notin> fst ` set (columns ?raw)"
    by (simp add: m unified_suffix_def)
  have "[88] @ unified_suffix \<notin> fst ` set (columns (df_norm ?raw))"
    using no_normalized_column_without_baseline_value[OF refl c nf h] n by blast
  moreover have "[27861, 24052, 65] @ unified_suffix
      \<notin> fst ` set (columns (df_norm ?raw))"
    by (simp add: m df_norm_def normalize_def norm_step_def fab_cols_def fab_def
        setitem_def order_cols_def select_cols_def unified_suffix_def Let_def
        start_date_def notna_at_def df_at_def index_min_def baseline_def)
  ultimately show ?thesis by blast
qed

text \<open>
  C2 as the specification states it fails for a baseline value of zero: the competitor
  is worth 0 on the baseline date (day 1), and the table still gets its normalised
  column, holding the quotients by zero.
\<close>

theorem zero_baseline_gets_column_counterexample:
  "start_date (merged_nav (product_nav (scan_folder False False zero_base_files))) = Some 1
   \<and> df_at (merged_nav (product_nav (scan_folder False False zero_base_files))) 1 [88]
       = Some (Num 0)
   \<and> [88] \<notin> set (fab_cols (merged_nav (product_nav (scan_folder False False zero_base_files))))
   \<and> df_norm (merged_nav (product_nav (scan_folder False False zero_base_files))) =
       \<lparr>index = [1, 2],
        columns = [([27861, 24052, 65], [Num 1, NaN]), ([88], [Num 0, Num 5]),
                   ([88] @ unified_suffix, [NaN, PInf])]\<rparr>"
  by (simp add: zero_base_merged zero_base_start_date zero_base_fab_cols zero_base_df_norm)
     (simp add: df_at_def unified_suffix_def)

text \<open>
  C3. In variant 2, when the loop assigns a normalised column for a product outside the
  reference group (its test passes, with \<open>b\<close> the non-null value of the product at the
  baseline date), the baseline date is a date of the merged table on which some
  reference column is non-null, no earlier date of the table has a non-null reference
  cell, and at every date the cell of the normalised column in the table written to the
  report is the raw cell divided by \<open>b\<close>.
\<close>

theorem normalized_is_ratio_to_baseline:
  assumes "df_raw = merged_nav (product_nav (scan_folder False q files))"
    and "c \<in> fst ` set (columns df_raw)" and "c \<notin> set (fab_cols df_raw)"
    and "baseline df_raw (start_date df_raw) c = Some b"
  shows "\<exists>s. start_date df_raw = Some s \<and> s \<in> set (index df_raw)
       \<and> list_ex (notna_at df_raw s) (fab_cols df_raw)
       \<and> (\<forall>d \<in> set (index df_raw). list_ex (notna_at df_raw d) (fab_cols df_raw) \<longrightarrow> s \<le> d)
       \<and> df_at df_raw s c = Some b \<and> b \<noteq> NaN
       \<and> (\<forall>d v. df_at df_raw d c = Some v
              \<longrightarrow> df_at (df_norm df_raw) d (c @ unified_suffix) = Some (fl_div v b))"
proof -
  obtain s where s: "start_date df_raw = Some s"
    using assms(4) by (cases "start_date df_raw") (simp_all add: baseline_def)
  have sb: "df_at df_raw s c = Some b \<and> b \<noteq> NaN"
    using assms(4) s by (auto simp: baseline_def split: if_splits option.splits)
  have dist: "distinct (map fst (columns df_raw))"
    using assms(1) by (simp add: distinct_names_merged_nav)
  have ratio: "\<forall>d v. df_at df_raw d c = Some v
      \<longrightarrow> df_at (df_norm df_raw) d (c @ unified_suffix) = Some (fl_div v b)"
    using df_at_df_norm[OF dist assms(2,3,4)] by blast
  show ?thesis using s sb ratio start_date_Some[of df_raw s] by blast
qed

theorem normalized_is_ratio_to_baseline_witness:
  "df_at (df_norm (merged_nav (product_nav (scan_folder False False late_start_files)))) 3
      ([88] @ unified_suffix) = Some (Num (51 / 50))
   \<and> start_date (merged_nav (product_nav (scan_folder False False late_start_files))) = Some 2"
proof -
  let ?raw = "merged_nav (product_nav (scan_folder False False late_start_files))"
  have c: "[88] \<in> fst ` set (columns ?raw)" by (simp add: late_start_merged)
  have nf: "[88] \<notin> set (fab_cols ?raw)" by (simp add: late_start_merged late_start_fab_cols)
  have s: "start_date ?raw = Some 2" by (simp add: late_start_merged late_start_start_date)
  have b: "baseline ?raw (start_date ?raw) [88] = Some (Num 100)"
    by (simp add: s baseline_def) (simp add: late_start_merged df_at_def)
  have v: "df_at ?raw 3 [88] = Some (Num 102)" by (simp add: late_start_merged df_at_def)
  obtain s' where "\<forall>d v. df_at ?raw d [88] = Some v
      \<longrightarrow> df_at (df_norm ?raw) d ([88] @ unified_suffix) = Some (fl_div v (Num 100))"
    using normalized_is_ratio_to_baseline[OF refl c nf b] by blast
  then have "df_at (df_norm ?raw) 3 ([88] @ unified_suffix) = Some (fl_div (Num 102) (Num 100))"
    using v by blast
  then show ?thesis using s by simp
qed

text \<open>
  C4. Whenever the merged table has a row, the resampling succeeds and the resampled
  table has one row for every calendar day from the least to the greatest date of the
  merged table, in order, with the same columns. A cell strictly between two numbers of
  its column with nothing known between them is the linear interpolation of the two.
\<close>

theorem calendar_resample_daily_linear:
  assumes "index df \<noteq> []"
  shows "\<exists>p. plot_nav df = Inr p
       \<and> index p = [Min (set (index df))..Max (set (index df))]
       \<and> map fst (columns p) = map fst (columns df)
       \<and> (\<forall>c d1 d d2 a b.
             c \<in> fst ` set (columns df) \<and> d1 < d \<and> d < d2
             \<and> df_at df d1 c = Some (Num a) \<and> df_at df d2 c = Some (Num b)
             \<and> (\<forall>d'. d1 < d' \<and> d' < d2 \<longrightarrow> \<not> notna_at df d' c)
           \<longrightarrow> df_at p d c = Some (Num (a + (b - a) * of_int (d - d1) / of_int (d2 - d1))))"
proof -
  let ?lo = "Min (set (index df))" and ?hi = "Max (set (index df))"
  define p where "p = interpolate (reindex df [?lo..?hi])"
  have a: "plot_nav df = Inr p" using assms by (simp add: plot_nav_Inr p_def)
  have b: "index p = [?lo..?hi]" by (simp add: p_def)
  have n: "map fst (columns p) = map fst (columns df)"
    by (simp add: p_def names_interpolate names_reindex)
  have i: "df_at p d c = Some (Num (a + (b - a) * of_int (d - d1) / of_int (d2 - d1)))"
    if h: "c \<in> fst ` set (columns df)" "d1 < d" "d < d2"
      "df_at df d1 c = Some (Num a)" "df_at df d2 c = Some (Num b)"
      "\<forall>d'. d1 < d' \<and> d' < d2 \<longrightarrow> \<not> notna_at df d' c"
    for c d1 d d2 a b
  proof -
    have "d1 \<in> set (index df)" "d2 \<in> set (index df)"
      using h(4,5) by (auto dest: df_at_in_index)
    then have "?lo \<le> d1" "d2 \<le> ?hi" by simp_all
    then show ?thesis using plot_interior[OF p_def h(1) _ h(2,3) _ h(4,5,6)] by simp
  qed
  show ?thesis using a b n i by blast
qed

theorem calendar_resample_daily_linear_witness:
  "\<exists>p. plot_nav \<lparr>index = [1, 4], columns = [([88], [Num 1, Num 4])]\<rparr> = Inr p
     \<and> index p = [1, 2, 3, 4] \<and> df_at p 2 [88] = Some (Num 2)"
proof -
  let ?df = "\<lparr>index = [1, 4], columns = [([88], [Num 1, Num 4])]\<rparr>"
  have ne: "index ?df \<noteq> []" by simp
  obtain p where p: "plot_nav ?df = Inr p"
    and ix: "index p = [Min (set (index ?df))..Max (set (index ?df))]"
    and lin: "\<forall>c d1 d d2 a b.
             c \<in> fst ` set (columns ?df) \<and> d1 < d \<and> d < d2
             \<and> df_at ?df d1 c = Some (Num a) \<and> df_at ?df d2 c = Some (Num b)
             \<and> (\<forall>d'. d1 < d' \<and> d' < d2 \<longrightarrow> \<not> notna_at ?df d' c)
           \<longrightarrow> df_at p d c = Some (Num (a + (b - a) * of_int (d - d1) / of_int (d2 - d1)))"
    using calendar_resample_daily_linear[OF ne] by blast
  have h: "[88] \<in> fst ` set (columns ?df) \<and> (1::int) < 2 \<and> (2::int) < 4
      \<and> df_at ?df 1 [88] = Some (Num 1) \<and> df_at ?df 4 [88] = Some (Num 4)
      \<and> (\<forall>d'. 1 < d' \<and> d' < 4 \<longrightarrow> \<not> notna_at ?df d' [88])"
    by (simp add: df_at_def notna_at_def)
  have "df_at p 2 [88] = Some (Num (1 + (4 - 1) * of_int (2 - 1) / of_int (4 - 1)))"
    using lin h by blast
  then have "df_at p 2 [88] = Some (Num 2)" by simp
  moreover have "index p = [1, 2, 3, 4]" using ix by (simp add: upto_rec1)
  ultimately show ?thesis using p by blast
qed

text \<open>
  C5. For the series that a folder leaves in \<open>product_nav\<close>, the index of the merged
  table is the sorted union of their dates, without duplicates; the table has one column
  per product, in the order of \<open>product_nav\<close>; the cell of a product at a date is the
  value of its series there, and is null exactly where the series has no entry.
\<close>

theorem merged_index_sorted_union:
  assumes "pn = product_nav (scan_folder warn q files)" and "m = merged_nav pn"
  shows "sorted (index m) \<and> distinct (index m)
       \<and> set (index m) = (\<Union>ps \<in> set pn. fst ` set (snd ps))
       \<and> map fst (columns m) = map fst pn \<and> distinct (map fst pn)
       \<and> (\<forall>ps \<in> set pn. \<forall>d \<in> set (index m).
             df_at m d (fst ps) = Some (cell_or_nan (snd ps) d)
           \<and> (df_at m d (fst ps) = Some NaN \<longleftrightarrow> d \<notin> fst ` set (snd ps)))"
proof -
  have s: "sorted (index m)" and d: "distinct (index m)"
    using assms(2) by (simp_all add: index_merged_nav)
  have u: "set (index m) = (\<Union>ps \<in> set pn. fst ` set (snd ps))"
    using assms(2) by (simp add: set_index_merged_nav case_prod_beta)
  have n: "map fst (columns m) = map fst pn" using assms(2) by (simp add: names_merged_nav)
  have dn: "distinct (map fst pn)" using assms(1) by (simp add: distinct_product_nav)
  have c: "df_at m d (fst ps) = Some (cell_or_nan (snd ps) d)
      \<and> (df_at m d (fst ps) = Some NaN \<longleftrightarrow> d \<notin> fst ` set (snd ps))"
    if "ps \<in> set pn" "d \<in> set (index m)" for ps d
  proof -
    have "(fst ps, snd ps) \<in> set pn" using that(1) by simp
    then have a: "df_at m d (fst ps) = Some (cell_or_nan (snd ps) d)"
      using dn that(2) assms(2) by (simp add: df_at_merged_nav)
    have "NaN \<notin> snd ` set (snd ps)"
      using product_nav_not_nan[of "fst ps" "snd ps" warn q files] that(1) assms(1) by force
    then show ?thesis using a by (simp add: cell_or_nan_NaN_iff)
  qed
  show ?thesis using s d u n dn c by blast
qed

theorem merged_index_sorted_union_witness:
  "index (merged_nav (product_nav (scan_folder True False demo_files))) = [1, 2, 3, 4, 5]
   \<and> sorted (index (merged_nav (product_nav (scan_folder True False demo_files))))
   \<and> distinct (index (merged_nav (product_nav (scan_folder True False demo_files))))
   \<and> map fst (columns (merged_nav (product_nav (scan_folder True False demo_files))))
       = [[27861, 24052, 65], [88]]
   \<and> df_at (merged_nav (product_nav (scan_folder True False demo_files))) 4 [88] = Some NaN
   \<and> df_at (merged_nav (product_nav (scan_folder True False demo_files))) 3 [88]
       = Some (Num 102)"
  using merged_index_sorted_union [OF refl refl, of True False demo_files]
  by (simp add: demo_merged_nav demo_product_nav df_at_def)

text \<open>
  C6. When the historical-NAV rows of a workbook hold the same date more than once, the
  series of the product keeps, for that date, the value of the last row that survives
  the cleaning (a row with a parseable date and a numeric value): here the row
  \<open>(Good d, Good v)\<close>, after which no usable row for \<open>d\<close> follows. The series has one
  entry per date, and the merged table shows that value in the column of the product.
\<close>

theorem duplicate_dates_last_wins:
  assumes "rows = pre @ (Good d, Good v) # post" and "v \<noteq> NaN"
    and "\<forall>w. (Good d, Good w) \<in> set post \<longrightarrow> w = NaN"
  shows "map_of (hist_series rows) d = Some v
       \<and> distinct (map fst (hist_series rows))
       \<and> (distinct (map fst pn) \<and> (p, hist_series rows) \<in> set pn
            \<longrightarrow> df_at (merged_nav pn) d p = Some v)"
proof -
  have m: "map_of (hist_series rows) d = Some v" using assms by (rule hist_series_last)
  have dist: "distinct (map fst (hist_series rows))" by (rule distinct_hist_series)
  have "df_at (merged_nav pn) d p = Some v"
    if "distinct (map fst pn)" "(p, hist_series rows) \<in> set pn"
  proof -
    have mem: "(d, v) \<in> set (hist_series rows)" using m by (rule map_of_SomeD)
    then have "d \<in> set (index (merged_nav pn))"
      using that(2) by (force simp: set_index_merged_nav)
    then have "df_at (merged_nav pn) d p = Some (cell_or_nan (hist_series rows) d)"
      using that by (simp add: df_at_merged_nav)
    then show ?thesis using m by (simp add: cell_or_nan_def)
  qed
  then show ?thesis using m dist by blast
qed

theorem duplicate_dates_last_wins_witness:
  "map_of (hist_series [(Good 3, Good (Num 1)), (Good 3, Good (Num 2)), (Good 3, Junk)]) 3
     = Some (Num 2)
   \<and> df_at (merged_nav
        [([65], hist_series [(Good 3, Good (Num 1)), (Good 3, Good (Num 2)), (Good 3, Junk)])])
        3 [65] = Some (Num 2)"
  using duplicate_dates_last_wins
    [of "[(Good 3, Good (Num 1)), (Good 3, Good (Num 2)), (Good 3, Junk)]"
        "[(Good 3, Good (Num 1))]" 3 "Num 2" "[(Good 3, Junk)]"
        "[([65], hist_series [(Good 3, Good (Num 1)), (Good 3, Good (Num 2)), (Good 3, Junk)])]"
        "[65]"]
  by simp

text \<open>
  C7. For a loaded lookup table that has the registration-code column (its labels
  distinct, as \<open>read_excel\<close> makes them, and its rows as long as its header) and a
  non-empty set of collected codes: variant 1 writes the table with exactly the rows
  whose registration code, as a string, is in the set, in their order; variant 2 writes
  the same rows with the columns reordered, first the columns of the preferred list that
  the table has, in the order of that list, then the other columns in their original
  order; read back in the original column order, the rows of variant 2 are those of
  variant 1.
\<close>

theorem product_info_rows_and_column_order:
  assumes "distinct (lk_columns t)" and "reg_code \<in> set (lk_columns t)" and "codes \<noteq> {}"
    and "\<forall>r \<in> set (lk_rows t). length r = length (lk_columns t)"
  shows "\<exists>i t2. pos_of reg_code (lk_columns t) = Some i \<and> lk_columns t ! i = reg_code
       \<and> df_info_v1 (Some t) codes
           = Inr (Some (t\<lparr>lk_rows := filter (\<lambda>r. astype_str (r ! i) \<in> codes) (lk_rows t)\<rparr>))
       \<and> df_info_v2 (Some t) codes = Inr (Some t2)
       \<and> lk_columns t2 = filter (\<lambda>c. c \<in> set (lk_columns t)) desired_info_cols
                          @ filter (\<lambda>c. c \<notin> set desired_info_cols) (lk_columns t)
       \<and> map (\<lambda>r. map (\<lambda>l. r ! the (pos_of l (lk_columns t2))) (lk_columns t)) (lk_rows t2)
           = filter (\<lambda>r. astype_str (r ! i) \<in> codes) (lk_rows t)"
proof -
  obtain i where i: "pos_of reg_code (lk_columns t) = Some i" "lk_columns t ! i = reg_code"
    using pos_of_Some[OF assms(2)] by blast
  let ?rows = "filter (\<lambda>r. astype_str (r ! i) \<in> codes) (lk_rows t)"
  let ?t1 = "t\<lparr>lk_rows := ?rows\<rparr>"
  let ?labels = "filter (\<lambda>c. c \<in> set (lk_columns t)) desired_info_cols
                 @ filter (\<lambda>c. c \<notin> set desired_info_cols) (lk_columns t)"
  let ?t2 = "\<lparr>lk_columns = ?labels,
              lk_rows = map (\<lambda>r. map (\<lambda>l. r ! the (pos_of l (lk_columns t))) ?labels) ?rows\<rparr>"
  have isin: "isin_codes t codes = Inr ?t1" using i by (simp add: isin_codes_def)
  have v1: "df_info_v1 (Some t) codes = Inr (Some ?t1)"
    using assms(3) isin by (simp add: df_info_v1_def)
  have sub: "set ?labels \<subseteq> set (lk_columns ?t1)" by auto
  have "reorder_info ?t1 = select_info ?t1 ?labels"
    by (simp only: reorder_info_def Let_def remaining_columns) simp
  then have re: "reorder_info ?t1 = Inr ?t2" using select_info_Inr[OF sub] by simp
  have v2: "df_info_v2 (Some t) codes = Inr (Some ?t2)"
    using assms(3) isin re by (simp add: df_info_v2_def)
  have cov: "set (lk_columns t) \<subseteq> set ?labels" by auto
  have rb: "map (\<lambda>l. map (\<lambda>l. r ! the (pos_of l (lk_columns t))) ?labels
                          ! the (pos_of l ?labels)) (lk_columns t) = r"
    if "r \<in> set ?rows" for r
  proof -
    have len: "length r = length (lk_columns t)" using that assms(4) by simp
    have "map (\<lambda>l. map (\<lambda>l. r ! the (pos_of l (lk_columns t))) ?labels
                          ! the (pos_of l ?labels)) (lk_columns t)
        = map (\<lambda>l. r ! the (pos_of l (lk_columns t))) (lk_columns t)"
    proof (rule map_cong[OF refl])
      fix l assume "l \<in> set (lk_columns t)"
      then have "l \<in> set ?labels" using cov by blast
      then show "map (\<lambda>l. r ! the (pos_of l (lk_columns t))) ?labels ! the (pos_of l ?labels)
          = r ! the (pos_of l (lk_columns t))"
        by (rule read_back_selected)
    qed
    then show ?thesis using read_back_original[OF assms(1) len] by simp
  qed
  have "map (\<lambda>r. map (\<lambda>l. r ! the (pos_of l (lk_columns ?t2))) (lk_columns t)) (lk_rows ?t2)
      = map (\<lambda>r. map (\<lambda>l. map (\<lambda>l. r ! the (pos_of l (lk_columns t))) ?labels
                          ! the (pos_of l ?labels)) (lk_columns t)) ?rows"
    by (simp only: lookup.simps map_map comp_def)
  also have "\<dots> = ?rows" by (rule map_idI) (rule rb)
  finally have "map (\<lambda>r. map (\<lambda>l. r ! the (pos_of l (lk_columns ?t2))) (lk_columns t))
      (lk_rows ?t2) = ?rows" .
  then show ?thesis using i v1 v2 by (intro exI[of _ i] exI[of _ ?t2]) simp
qed

theorem product_info_rows_and_column_order_witness:
  "df_info_v1 (Some \<lparr>lk_columns = [[67], reg_code, [29702, 36130, 20135, 21697, 21517, 31216]],
                      lk_rows = [[Some [49], Some [90, 49], Some [80]],
                                 [Some [50], None, Some [81]],
                                 [Some [51], Some [90, 51], Some [82]]]\<rparr>) {[90, 51], [90, 52]}
     = Inr (Some \<lparr>lk_columns = [[67], reg_code, [29702, 36130, 20135, 21697, 21517, 31216]],
                  lk_rows = [[Some [51], Some [90, 51], Some [82]]]\<rparr>)
   \<and> df_info_v2 (Some \<lparr>lk_columns = [[67], reg_code, [29702, 36130, 20135, 21697, 21517, 31216]],
                      lk_rows = [[Some [49], Some [90, 49], Some [80]],
                                 [Some [50], None, Some [81]],
                                 [Some [51], Some [90, 51], Some [82]]]\<rparr>) {[90, 51], [90, 52]}
     = Inr (Some \<lparr>lk_columns = [[29702, 36130, 20135, 21697, 21517, 31216], [67], reg_code],
                  lk_rows = [[Some [82], Some [51], Some [90, 51]]]\<rparr>)"
proof -
  let ?t = "\<lparr>lk_columns = [[67], reg_code, [29702, 36130, 20135, 21697, 21517, 31216]],
                      lk_rows = [[Some [49], Some [90, 49], Some [80]],
                                 [Some [50], None, Some [81]],
                                 [Some [51], Some [90, 51], Some [82]]]\<rparr>"
  have a: "distinct (lk_columns ?t)" by (simp add: reg_code_def)
  have b: "reg_code \<in> set (lk_columns ?t)" by simp
  have c: "{[90, 51], [90, 52::nat]} \<noteq> {}" by simp
  have d: "\<forall>r \<in> set (lk_rows ?t). length r = length (lk_columns ?t)" by simp
  obtain i t2 where i: "pos_of reg_code (lk_columns ?t) = Some i"
    and v1: "df_info_v1 (Some ?t) {[90, 51], [90, 52]}
           = Inr (Some (?t\<lparr>lk_rows := filter (\<lambda>r. astype_str (r ! i) \<in> {[90, 51], [90, 52]})
                                          (lk_rows ?t)\<rparr>))"
    and v2: "df_info_v2 (Some ?t) {[90, 51], [90, 52]} = Inr (Some t2)"
    using product_info_rows_and_column_order[OF a b c d] by blast
  have "i = 1" using i by (simp add: reg_code_def)
  then have "df_info_v1 (Some ?t) {[90, 51], [90, 52]}
      = Inr (Some \<lparr>lk_columns = [[67], reg_code, [29702, 36130, 20135, 21697, 21517, 31216]],
                   lk_rows = [[Some [51], Some [90, 51], Some [82]]]\<rparr>)"
    using v1 by (simp add: astype_str_def)
  moreover have "df_info_v2 (Some ?t) {[90, 51], [90, 52]}
      = Inr (Some \<lparr>lk_columns = [[29702, 36130, 20135, 21697, 21517, 31216], [67], reg_code],
                   lk_rows = [[Some [82], Some [51], Some [90, 51]]]\<rparr>)"
    by (simp add: df_info_v2_def isin_codes_def reorder_info_def select_info_def
          desired_info_cols_def reg_code_def astype_str_def Let_def)
  ultimately show ?thesis by simp
qed

text \<open>
  When no workbook of a folder contributes a series, both variants print the skip
  message for the folder and write no report for it; no exception is raised, and the
  run goes on: its reports and the exception that ends it, if any, are those of the
  remaining folders.
\<close>

lemma folder_without_series_is_skipped:
  assumes "\<forall>f \<in> set files. series_of f = None"
  shows "process_folder_v1 q (name, files)
           = (printed (scan_folder True (q \<noteq> None) files) @ [FolderSkipped name], Inr None)
       \<and> process_folder_v2 q (name, files)
           = (printed (scan_folder False (q \<noteq> None) files) @ [FolderSkipped name], Inr None)
       \<and> run_v1 q ((name, files) # rest)
           = (printed (scan_folder True (q \<noteq> None) files) @ [FolderSkipped name]
                @ fst (run_v1 q rest),
              fst (snd (run_v1 q rest)), snd (snd (run_v1 q rest)))
       \<and> run_v2 q ((name, files) # rest)
           = (printed (scan_folder False (q \<noteq> None) files) @ [FolderSkipped name]
                @ fst (run_v2 q rest),
              fst (snd (run_v2 q rest)), snd (snd (run_v2 q rest)))"
proof -
  have e: "product_nav (scan_folder w (q \<noteq> None) files) = []" for w
    using assms by (simp add: product_nav_empty_iff)
  have p1: "process_folder_v1 q (name, files)
      = (printed (scan_folder True (q \<noteq> None) files) @ [FolderSkipped name], Inr None)"
    using e[of True] by (simp add: process_folder_v1_def Let_def)
  have p2: "process_folder_v2 q (name, files)
      = (printed (scan_folder False (q \<noteq> None) files) @ [FolderSkipped name], Inr None)"
    using e[of False] by (simp add: process_folder_v2_def Let_def)
  have r1: "run_v1 q ((name, files) # rest)
      = (printed (scan_folder True (q \<noteq> None) files) @ [FolderSkipped name]
           @ fst (run_v1 q rest),
         fst (snd (run_v1 q rest)), snd (snd (run_v1 q rest)))"
    by (simp add: run_v1_def p1 split: prod.splits)
  have r2: "run_v2 q ((name, files) # rest)
      = (printed (scan_folder False (q \<noteq> None) files) @ [FolderSkipped name]
           @ fst (run_v2 q rest),
         fst (snd (run_v2 q rest)), snd (snd (run_v2 q rest)))"
    by (simp add: run_v2_def p2 split: prod.splits)
  show ?thesis using p1 p2 r1 r2 by simp
qed

lemma header_only_product_nav:
  "product_nav (scan_folder warn q header_only_files) = [([88], [])]"
  by (simp add: scan_folder_def header_only_files_def scan0_def read_file_def hist_raises_def
        date_label_def read_hist_def read_latest_def say_def hist_series_def groupby_last_def
        dropna_subset_def dropna_blank_def Let_def)

lemma header_only_v1:
  "process_folder_v1 None ([70], header_only_files) = ([], Inl ValueError)"
  by (simp add: process_folder_v1_def header_only_product_nav Let_def)
     (simp add: scan_folder_def header_only_files_def scan0_def read_file_def hist_raises_def
        date_label_def read_hist_def merged_nav_def sort_index_def concat_axis1_def
        reindex_def plot_nav_def full_idx_def date_range_def index_min_def)

lemma header_only_v2:
  "process_folder_v2 None ([70], header_only_files) = ([], Inl ValueError)"
  by (simp add: process_folder_v2_def header_only_product_nav Let_def)
     (simp add: scan_folder_def header_only_files_def scan0_def read_file_def hist_raises_def
        date_label_def read_hist_def merged_nav_def sort_index_def concat_axis1_def
        reindex_def plot_nav_def full_idx_def date_range_def index_min_def)

text \<open>
  C8 fails on the code. A workbook whose historical-NAV sheet has the date and unit-NAV
  columns but no usable row contributes a series, an empty one. In a folder whose only
  series are empty no usable series was extracted, yet \<open>product_nav\<close> is not empty: the
  folder is not skipped, its merged table has no row, \<open>date_range\<close> raises ValueError
  outside any handler, nothing is printed for the folder, and the run ends there: the
  folder after it, which has data, is never processed.
\<close>

theorem folder_with_only_empty_series_raises:
  "product_nav (scan_folder True False header_only_files) = [([88], [])]
   \<and> index (merged_nav (product_nav (scan_folder True False header_only_files))) = []
   \<and> process_folder_v1 None ([70], header_only_files) = ([], Inl ValueError)
   \<and> process_folder_v2 None ([70], header_only_files) = ([], Inl ValueError)
   \<and> run_v1 None [([70], header_only_files), ([71], demo_files)] = ([], [], Some ValueError)
   \<and> run_v2 None [([70], header_only_files), ([71], demo_files)] = ([], [], Some ValueError)"
  by (simp add: run_v1_def run_v2_def header_only_v1 header_only_v2 header_only_product_nav)
     (simp add: merged_nav_def sort_index_def concat_axis1_def reindex_def)

text \<open>
  C9. When two workbooks of a folder carry the same product name and both contribute a
  series (each has the historical-NAV rows, and the name is not \<open>date\<close>, for which the
  history block raises), and no later workbook contributes one under that name, then
  \<open>product_nav\<close> holds the series of the later workbook under that name. The merged table
  has exactly one column with that label; every date of the later series is a row of
  the table and the column holds the value of the later series there; on every other
  row the column is null, whatever the earlier workbook had on that date; the rows of
  the table are the dates of the series left in \<open>product_nav\<close>. What is printed is what
  each workbook prints when read alone: nothing is printed about the replacement. The
  scan has no failing branch.
\<close>

theorem same_name_later_file_wins:
  assumes "files = fs1 @ f1 # fs2 @ f2 # fs3"
    and "prod_name f1 = p" and "prod_name f2 = p" and "p \<noteq> date_label"
    and "book f1 = Workbook (HistRows rows1) l1" and "book f2 = Workbook (HistRows rows2) l2"
    and "\<forall>f \<in> set fs3. prod_name f = p \<longrightarrow> (\<forall>rows l. book f \<noteq> Workbook (HistRows rows) l)"
    and "sc = scan_folder warn q files" and "m = merged_nav (product_nav sc)"
  shows "map_of (product_nav sc) p = Some (hist_series rows2)
       \<and> distinct (map fst (columns m)) \<and> p \<in> set (map fst (columns m))
       \<and> set (index m) = (\<Union>ps \<in> set (product_nav sc). fst ` set (snd ps))
       \<and> fst ` set (hist_series rows2) \<subseteq> set (index m)
       \<and> (\<forall>d v. (d, v) \<in> set (hist_series rows2) \<longrightarrow> df_at m d p = Some v)
       \<and> (\<forall>d \<in> set (index m). d \<notin> fst ` set (hist_series rows2) \<longrightarrow> df_at m d p = Some NaN)
       \<and> (\<forall>d. d \<notin> set (index m) \<longrightarrow> df_at m d p = None)
       \<and> printed sc = concat (map (\<lambda>f. printed (read_file warn q scan0 f)) files)"
proof -
  let ?st = "foldl (read_file warn q) scan0 (fs1 @ f1 # fs2)"
  let ?s2 = "hist_series rows2"
  have s2: "series_of f2 = Some ?s2" using assms(3,4,6) by (simp add: series_of_def)
  have later: "\<forall>f \<in> set fs3. prod_name f = p \<longrightarrow> series_of f = None"
    using assms(7) by (simp add: series_of_None_iff)
  have "sc = foldl (read_file warn q) (read_file warn q ?st f2) fs3"
    using assms(1,8) by (simp add: scan_folder_def)
  then have "map_of (product_nav sc) p = map_of (product_nav (read_file warn q ?st f2)) p"
    using map_of_product_nav_other[OF later] by simp
  then have mp: "map_of (product_nav sc) p = Some ?s2"
    using s2 assms(3) by (simp add: product_nav_read_file update_conv')
  have dn: "distinct (map fst (product_nav sc))" using assms(8) by (simp add: distinct_product_nav)
  have mem: "(p, ?s2) \<in> set (product_nav sc)" using mp by (rule map_of_SomeD)
  have names: "map fst (columns m) = map fst (product_nav sc)"
    using assms(9) by (simp add: names_merged_nav)
  have pin: "p \<in> set (map fst (columns m))" using mem names by force
  have ix: "set (index m) = (\<Union>ps \<in> set (product_nav sc). fst ` set (snd ps))"
    using assms(9) by (simp add: set_index_merged_nav case_prod_beta)
  have sub: "fst ` set ?s2 \<subseteq> set (index m)" using ix mem by force
  have cells: "\<forall>d \<in> set (index m). df_at m d p = Some (cell_or_nan ?s2 d)"
    using dn mem assms(9) by (simp add: df_at_merged_nav)
  have known: "df_at m d p = Some v" if "(d, v) \<in> set ?s2" for d v
  proof -
    have "d \<in> set (index m)" using that sub by force
    moreover have "cell_or_nan ?s2 d = v"
      using that by (simp add: cell_or_nan_known distinct_hist_series)
    ultimately show ?thesis using cells by simp
  qed
  have null: "\<forall>d \<in> set (index m). d \<notin> fst ` set ?s2 \<longrightarrow> df_at m d p = Some NaN"
    using cells by (simp add: cell_or_nan_absent)
  have out: "df_at m d p = None" if "d \<notin> set (index m)" for d
    using that df_at_in_index[of m d p] by (cases "df_at m d p") auto
  have pr: "printed sc = concat (map (\<lambda>f. printed (read_file warn q scan0 f)) files)"
    using assms(8) by (simp add: scan_folder_def printed_foldl scan0_def)
  show ?thesis using mp dn names pin ix sub known null out pr by simp
qed

theorem same_name_later_file_wins_witness:
  "df_at (merged_nav (product_nav (scan_folder True False same_name_files))) 2 [88]
     = Some (Num 9)
   \<and> df_at (merged_nav (product_nav (scan_folder True False same_name_files))) 1 [88]
     = Some NaN
   \<and> df_at (merged_nav (product_nav (scan_folder True False same_name_files))) 3 [88] = None
   \<and> map_of (product_nav (scan_folder True False same_name_files)) [88] = Some [(2, Num 9)]
   \<and> printed (scan_folder True False same_name_files) = []"
proof -
  let ?f1 = "\<lparr>file_name = [49], prod_name = [88],
       book = Workbook (HistRows [(Good 1, Good (Num 7)), (Good 2, Good (Num 8))]) NoLatestSheet\<rparr>"
  let ?g = "\<lparr>file_name = [50], prod_name = [89],
       book = Workbook (HistRows [(Good 1, Good (Num 5))]) NoLatestSheet\<rparr>"
  let ?f2 = "\<lparr>file_name = [51], prod_name = [88],
       book = Workbook (HistRows [(Good 2, Good (Num 9))]) NoLatestSheet\<rparr>"
  let ?sc = "scan_folder True False same_name_files"
  let ?m = "merged_nav (product_nav ?sc)"
  have a: "same_name_files = [] @ ?f1 # [?g] @ ?f2 # []" by (simp add: same_name_files_def)
  have b: "prod_name ?f1 = [88]" "prod_name ?f2 = [88]" "[88] \<noteq> date_label"
    by (simp_all add: date_label_def)
  have c: "book ?f1 = Workbook (HistRows [(Good 1, Good (Num 7)), (Good 2, Good (Num 8))])
      NoLatestSheet" "book ?f2 = Workbook (HistRows [(Good 2, Good (Num 9))]) NoLatestSheet"
    by simp_all
  have e: "\<forall>f \<in> set []. prod_name f = [88]
      \<longrightarrow> (\<forall>rows l. book f \<noteq> Workbook (HistRows rows) l)" by simp
  have hs: "hist_series [(Good 2, Good (Num 9))] = [(2, Num 9)]"
    by (simp add: hist_series_def groupby_last_def dropna_subset_def dropna_blank_def)
  have ix: "index ?m = [1, 2]" by (simp add: same_name_product_nav same_name_merged)
  note t = same_name_later_file_wins[OF a b c e refl refl, unfolded hs]
  have "df_at ?m 2 [88] = Some (Num 9)" using t by simp
  moreover have "df_at ?m 1 [88] = Some NaN" using t ix by simp
  moreover have "df_at ?m 3 [88] = None" using t ix by simp
  moreover have "map_of (product_nav ?sc) [88] = Some [(2, Num 9)]" using t by simp
  moreover have "printed ?sc = []"
    using t by (simp add: same_name_files_def read_file_def hist_raises_def date_label_def
        read_hist_def scan0_def)
  ultimately show ?thesis by simp
qed

text \<open>
  C10. In variant 2, whenever the merged table has a row, both chart tables are built.
  The raw chart table has a row for every calendar day from the least to the greatest
  date of the merged table, and keeps every known raw value, also before the baseline
  date. The normalised chart table is the resampled normalised table cut to the days on
  or after the baseline date: its index holds exactly those days, each of its columns
  is as long as its index, its labels are those of the normalised table, its cell at a
  day on or after the baseline date is the cell of the resampled normalised table, and
  at any earlier day it has no row, so that a lookup there finds nothing whatever the
  raw columns hold. With a baseline date \<open>s\<close> its days are \<open>s\<close> to the greatest date.
  (Without a baseline date the comparison is false for every day and no row is left.)
\<close>

theorem normalized_chart_starts_at_baseline:
  assumes "index df_raw \<noteq> []"
  shows "\<exists>pr pn. plot_nav df_raw = Inr pr \<and> df_plot_norm df_raw = Inr pn
       \<and> index pr = [Min (set (index df_raw))..Max (set (index df_raw))]
       \<and> (\<forall>cv \<in> set (columns pr). length (snd cv) = length (index pr))
       \<and> (\<forall>d c v. c \<in> fst ` set (columns df_raw) \<and> df_at df_raw d c = Some v \<and> v \<noteq> NaN
              \<longrightarrow> df_at pr d c = Some v)
       \<and> index pn = filter (ge_start (start_date df_raw)) (index pr)
       \<and> (\<forall>cv \<in> set (columns pn). length (snd cv) = length (index pn))
       \<and> map fst (columns pn) = map fst (columns (df_norm df_raw))
       \<and> (\<forall>d c. df_at pn d c =
              (if ge_start (start_date df_raw) d
               then df_at (interpolate (reindex (df_norm df_raw) (index pr))) d c else None))
       \<and> (\<forall>d \<in> set (index pn). \<exists>s. start_date df_raw = Some s \<and> s \<le> d)
       \<and> (\<forall>s. start_date df_raw = Some s
              \<longrightarrow> index pn = [s..Max (set (index df_raw))]
                \<and> (\<forall>d. d < s \<longrightarrow> d \<notin> set (index pn) \<and> (\<forall>c. df_at pn d c = None)))"
proof -
  let ?lo = "Min (set (index df_raw))" and ?hi = "Max (set (index df_raw))"
  let ?full = "interpolate (reindex (df_norm df_raw) [?lo..?hi])"
  define pr where "pr = interpolate (reindex df_raw [?lo..?hi])"
  define pn where "pn = filter_rows (ge_start (start_date df_raw)) ?full"
  have a: "plot_nav df_raw = Inr pr" using assms by (simp add: plot_nav_Inr pr_def)
  have b: "df_plot_norm df_raw = Inr pn" using assms by (simp add: df_plot_norm_Inr pn_def)
  have ir: "index pr = [?lo..?hi]" by (simp add: pr_def)
  have lr: "\<forall>cv \<in> set (columns pr). length (snd cv) = length (index pr)"
    using length_columns_resampled[of df_raw "[?lo..?hi]"] by (simp add: pr_def)
  have keep: "df_at pr d c = Some v"
    if h: "c \<in> fst ` set (columns df_raw)" "df_at df_raw d c = Some v" "v \<noteq> NaN" for d c v
  proof -
    have "d \<in> set (index df_raw)" using h(2) by (rule df_at_in_index)
    then have "?lo \<le> d" "d \<le> ?hi" by simp_all
    then show ?thesis using plot_keep[OF pr_def h(1) _ _ h(2,3)] by simp
  qed
  have wf: "\<forall>cv \<in> set (columns ?full). length (snd cv) = length (index ?full)"
    using length_columns_resampled[of "df_norm df_raw" "[?lo..?hi]"] by simp
  have ip: "index pn = filter (ge_start (start_date df_raw)) (index pr)"
    by (simp add: pn_def pr_def)
  have lp: "\<forall>cv \<in> set (columns pn). length (snd cv) = length (index pn)"
    unfolding pn_def by (rule length_columns_filter_rows[OF wf])
  have np: "map fst (columns pn) = map fst (columns (df_norm df_raw))"
    by (simp add: pn_def names_filter_rows names_interpolate names_reindex)
  have cells: "\<forall>d c. df_at pn d c =
      (if ge_start (start_date df_raw) d
       then df_at (interpolate (reindex (df_norm df_raw) (index pr))) d c else None)"
    unfolding pn_def ir by (simp add: df_at_filter_rows[OF wf])
  have ge: "\<forall>d \<in> set (index pn). \<exists>s. start_date df_raw = Some s \<and> s \<le> d"
    by (auto simp: ip ge_start_def split: option.splits)
  have fr: "index pn = [s..?hi]
      \<and> (\<forall>d. d < s \<longrightarrow> d \<notin> set (index pn) \<and> (\<forall>c. df_at pn d c = None))"
    if s: "start_date df_raw = Some s" for s
  proof -
    have "s \<in> set (index df_raw)" using s by (simp add: start_date_Some)
    then have "?lo \<le> s" by simp
    then have "filter (\<lambda>d. s \<le> d) [?lo..?hi] = [s..?hi]" by (rule filter_upto_from)
    moreover have "ge_start (Some s) = (\<lambda>d. s \<le> d)" by (simp add: ge_start_def fun_eq_iff)
    ultimately have "index pn = [s..?hi]" using ip ir s by simp
    moreover have "\<forall>d. d < s \<longrightarrow> (\<forall>c. df_at pn d c = None)"
      using cells s by (simp add: ge_start_def)
    ultimately show ?thesis by simp
  qed
  show ?thesis
    apply (rule exI[of _ pr], rule exI[of _ pn])
    using a b ir lr keep ip lp np cells ge fr by blast
qed

theorem normalized_chart_starts_at_baseline_witness:
  "\<exists>pr pn. plot_nav (merged_nav (product_nav (scan_folder False False late_start_files))) = Inr pr
     \<and> df_plot_norm (merged_nav (product_nav (scan_folder False False late_start_files))) = Inr pn
     \<and> index pr = [1, 2, 3, 4, 5] \<and> index pn = [2, 3, 4, 5]
     \<and> df_at pr 1 [88] = Some (Num 50)
     \<and> df_at pn 1 [88] = None
     \<and> df_at pn 2 [88] = Some (Num 100)
     \<and> df_at pn 4 ([88] @ unified_suffix) = Some (Num (51 / 50))"
proof -
  let ?raw = "merged_nav (product_nav (scan_folder False False late_start_files))"
  have ne: "index ?raw \<noteq> []" by (simp add: late_start_merged)
  have s: "start_date ?raw = Some 2" by (simp add: late_start_merged late_start_start_date)
  obtain pr pn where a: "plot_nav ?raw = Inr pr" and b: "df_plot_norm ?raw = Inr pn"
    and ir: "index pr = [Min (set (index ?raw))..Max (set (index ?raw))]"
    and keep: "\<forall>d c v. c \<in> fst ` set (columns ?raw) \<and> df_at ?raw d c = Some v \<and> v \<noteq> NaN
              \<longrightarrow> df_at pr d c = Some v"
    and cells: "\<forall>d c. df_at pn d c =
              (if ge_start (start_date ?raw) d
               then df_at (interpolate (reindex (df_norm ?raw) (index pr))) d c else None)"
    and ip: "\<forall>s. start_date ?raw = Some s
              \<longrightarrow> index pn = [s..Max (set (index ?raw))]
                \<and> (\<forall>d. d < s \<longrightarrow> d \<notin> set (index pn) \<and> (\<forall>c. df_at pn d c = None))"
    using normalized_chart_starts_at_baseline[OF ne] by blast
  have i1: "index pr = [1, 2, 3, 4, 5]" using ir by (simp add: late_start_merged upto_rec1)
  have i2: "index pn = [2, 3, 4, 5]" using ip s by (simp add: late_start_merged upto_rec1)
  have full: "interpolate (reindex (df_norm ?raw) (index pr)) =
     \<lparr>index = [1, 2, 3, 4, 5],
      columns = [([27861, 24052, 65], [NaN, Num 1, Num 2, Num 3, Num 4]),
                 ([88], [Num 50, Num 100, Num 102, Num 102, Num 102]),
                 ([88, 65288, 32479, 19968, 22522, 20934, 65289],
                  [Num (1 / 2), Num 1, Num (51 / 50), Num (51 / 50), Num (51 / 50)])]\<rparr>"
    by (simp only: i1 late_start_merged late_start_df_norm late_start_interpolated)
  have "[88] \<in> fst ` set (columns ?raw) \<and> df_at ?raw 1 [88] = Some (Num 50) \<and> Num 50 \<noteq> NaN"
    by (simp add: late_start_merged df_at_def)
  then have r1: "df_at pr 1 [88] = Some (Num 50)" using keep by blast
  have n1: "df_at pn 1 [88] = None" using cells s by (simp add: ge_start_def)
  have n2: "df_at pn 2 [88] = Some (Num 100)"
    using cells s by (simp add: ge_start_def full) (simp add: df_at_def)
  have n4: "df_at pn 4 ([88] @ unified_suffix) = Some (Num (51 / 50))"
    using cells s by (simp add: ge_start_def full) (simp add: df_at_def unified_suffix_def)
  show ?thesis using a b i1 i2 r1 n1 n2 n4 by blast
qed

end
